theory Spec2Isabelle
  imports Main "HOL-Library.Log_Nat" "HOL-Library.Word"
begin

section \<open>JavaScript numbers\<close>

text \<open>
  Every number of the source is an IEEE 754 binary64 value, and each arithmetic operator
  rounds its exact result to the nearest such value, ties to even. A finite double is a
  rational, so a number is modelled as a rational or \<open>NaN\<close>, and rounding is written out:
  \<open>fl x\<close> is the double nearest to the rational \<open>x\<close>. The rounding matters for this
  program: \<open>100 * 2.55\<close> is \<open>254.99999999999997\<close>, not \<open>255\<close>.

  Only the normal range is modelled (53 significant bits, no overflow to infinity and no
  subnormals); the values of this program (byte differences, pixel counts, percentages,
  settings of a few digits) stay far inside it. Infinities are not modelled, and neither is
  the sign of zero, which no comparison of the program can see.
\<close>

definition pow2 :: "int \<Rightarrow> rat" where
  "pow2 e = (if 0 \<le> e then 2 ^ nat e else 1 / 2 ^ nat (- e))"

text \<open>The binary exponent of a positive rational: \<open>2 ^ binade x \<le> x < 2 ^ (binade x + 1)\<close>.\<close>

definition binade :: "rat \<Rightarrow> int" where
  "binade x = (if 1 \<le> x then bitlen \<lfloor>x\<rfloor> - 1 else - bitlen (\<lceil>1 / x\<rceil> - 1))"

definition round_half_even :: "rat \<Rightarrow> int" where
  "round_half_even q =
     (let f = \<lfloor>q\<rfloor>; r = q - of_int f
      in if r < 1 / 2 then f else if 1 / 2 < r then f + 1 else if even f then f else f + 1)"

definition fl :: "rat \<Rightarrow> rat" where
  "fl x = (if x = 0 then 0
           else let e = binade \<bar>x\<bar> - 52
                in of_int (round_half_even (x / pow2 e)) * pow2 e)"

datatype num = Num rat | NaN

fun js_add :: "num \<Rightarrow> num \<Rightarrow> num" where
  "js_add (Num x) (Num y) = Num (fl (x + y))"
| "js_add _ _ = NaN"

fun js_sub :: "num \<Rightarrow> num \<Rightarrow> num" where
  "js_sub (Num x) (Num y) = Num (fl (x - y))"
| "js_sub _ _ = NaN"

fun js_mul :: "num \<Rightarrow> num \<Rightarrow> num" where
  "js_mul (Num x) (Num y) = Num (fl (x * y))"
| "js_mul _ _ = NaN"

text \<open>
  \<open>0 / 0\<close> is \<open>NaN\<close>. A nonzero number divided by zero is an infinity in JavaScript; no
  division of the modelled code has a zero divisor with a nonzero dividend (the divisors are
  \<open>3\<close>, \<open>4\<close> and a pixel count, which is zero only when no pixel was counted).
\<close>

fun js_div :: "num \<Rightarrow> num \<Rightarrow> num" where
  "js_div (Num x) (Num y) = (if y = 0 then NaN else Num (fl (x / y)))"
| "js_div _ _ = NaN"

fun js_abs :: "num \<Rightarrow> num" where
  "js_abs (Num x) = Num \<bar>x\<bar>"
| "js_abs NaN = NaN"

text \<open>A comparison with \<open>NaN\<close> is false.\<close>

fun js_gt :: "num \<Rightarrow> num \<Rightarrow> bool" where
  "js_gt (Num x) (Num y) = (y < x)"
| "js_gt _ _ = False"

fun js_lt :: "num \<Rightarrow> num \<Rightarrow> bool" where
  "js_lt (Num x) (Num y) = (x < y)"
| "js_lt _ _ = False"

text \<open>The literal \<open>2.55\<close> denotes the double nearest to 255/100.\<close>

definition lit_2_55 :: num where
  "lit_2_55 = Num (fl (255 / 100))"

section \<open>Image data and the canvas\<close>

text \<open>
  An \<open>ImageData\<close> object has a width, a height and \<open>data\<close>, a \<open>Uint8ClampedArray\<close> of
  \<open>4 * width * height\<close> bytes in RGBA order. Reading a typed array outside its range gives
  \<open>undefined\<close>, which arithmetic turns into \<open>NaN\<close>; writing outside its range does nothing,
  which is what \<open>xs[i := v]\<close> does.
\<close>

type_synonym byte = "8 word"

record ImageData =
  width :: nat
  height :: nat
  data :: "byte list"

definition wf_image :: "ImageData \<Rightarrow> bool" where
  "wf_image img \<longleftrightarrow>
     0 < width img \<and> 0 < height img \<and> length (data img) = 4 * width img * height img"

definition rd :: "byte list \<Rightarrow> nat \<Rightarrow> num" where
  "rd xs i = (if i < length xs then Num (of_nat (unat (xs ! i))) else NaN)"

section \<open>The camera object of app.js\<close>

record alert =
  alert_id :: int
  alert_timestamp :: int
  motionLevel :: num
  read :: bool

record capture =
  capture_id :: int
  capture_timestamp :: int

text \<open>
  The fields of \<open>MotionSecurityCamera\<close> that the detection routine, its trigger handler and
  the controls read or write. \<open>motionCanvas\<close> is the bitmap of the motion canvas, \<open>None\<close> when
  the page has no such element (then \<open>motionContext\<close> stays \<open>null\<close>); the canvas is taken to
  store pixels exactly, so that \<open>getImageData\<close> after \<open>putImageData\<close> returns what was put.
  Times are integer milliseconds as \<open>Date.now()\<close> returns them, on which the subtraction of
  doubles is exact. The cooldown and the image limit are numbers like the sensitivity and the
  area threshold: the controls store there whatever their input reads as, a fraction, a
  negative number or \<open>NaN\<close> included. The JPEG payload of a capture, the timers and the tap
  counter of the black screen are left out.
\<close>

record camera =
  motionDetectionActive :: bool
  motionCanvas :: "ImageData option"
  captureCanvas_ready :: bool
  lastFrame :: "ImageData option"
  captures :: "capture list"
  alerts :: "alert list"
  sensitivity :: num
  captureDelay :: num
  lastCaptureTime :: int
  cooldownPeriod :: num
  sessionCaptures :: nat
  motionThreshold :: num
  maxStorageImages :: num
  activityData :: "nat list"
  blackScreenEnabled :: bool
  blackScreenActive :: bool

text \<open>
  What a handler reads from the page and the clock. Only the elements that the source itself
  tests for \<open>null\<close> are modelled; an element the source uses without a test is taken to
  exist, and toasts, notifications, sounds, list rendering and \<open>localStorage\<close> are
  collaborators that return normally and write none of the fields above.
\<close>

record page =
  video_present :: bool
  video_ready :: bool
  toggleDetection_present :: bool
  detectionStatus_present :: bool
  blackScreenOverlay_present :: bool
  blackScreenMode_checked :: bool
  autoDelete_cutoff :: "int option"

record clock =
  now :: int
  hour :: nat

text \<open>The constructor.\<close>

definition constructor :: "ImageData option \<Rightarrow> bool \<Rightarrow> camera" where
  "constructor canvas capture_ready =
     \<lparr>motionDetectionActive = False, motionCanvas = canvas, captureCanvas_ready = capture_ready,
      lastFrame = None, captures = [], alerts = [], sensitivity = Num 30,
      captureDelay = Num 3, lastCaptureTime = 0, cooldownPeriod = Num 5000, sessionCaptures = 0,
      motionThreshold = Num 2, maxStorageImages = Num 100, activityData = replicate 24 0,
      blackScreenEnabled = False, blackScreenActive = False\<rparr>"

subsection \<open>The comparison loop\<close>

text \<open>
  \<^verbatim>\<open>for (let i = 0; i < currentFrame.data.length; i += 4) { ... if (totalDiff > threshold) {
  changedPixels++; data[i] = 255; data[i + 1] = 0; data[i + 2] = 0; } }\<close>
  The loops of app.js and intro.js differ only in the line that computes \<open>totalDiff\<close>, which
  is the first argument here. The loop returns the current frame's data as the writes leave
  it, and the counter.
\<close>

function compare_frames ::
  "(byte list \<Rightarrow> byte list \<Rightarrow> nat \<Rightarrow> num) \<Rightarrow> num \<Rightarrow> byte list \<Rightarrow> nat \<Rightarrow> byte list \<Rightarrow> nat
     \<Rightarrow> byte list \<times> nat" where
  "compare_frames diff threshold prev i cur changedPixels =
     (if i < length cur then
        (if js_gt (diff cur prev i) threshold
         then compare_frames diff threshold prev (i + 4)
                (cur[i := 255, i + 1 := 0, i + 2 := 0]) (changedPixels + 1)
         else compare_frames diff threshold prev (i + 4) cur changedPixels)
      else (cur, changedPixels))"
  by pat_completeness auto
termination
  by (relation "measure (\<lambda>(d, t, l, i, c, k). length c - i)") auto

text \<open>app.js: the mean of the three channel differences.\<close>

definition totalDiff :: "byte list \<Rightarrow> byte list \<Rightarrow> nat \<Rightarrow> num" where
  "totalDiff cur prev i =
     (let rDiff = js_abs (js_sub (rd cur i) (rd prev i));
          gDiff = js_abs (js_sub (rd cur (i + 1)) (rd prev (i + 1)));
          bDiff = js_abs (js_sub (rd cur (i + 2)) (rd prev (i + 2)))
      in js_div (js_add (js_add rDiff gDiff) bDiff) (Num 3))"

text \<open>\<^verbatim>\<open>const threshold = (100 - this.sensitivity) * 2.55;\<close>\<close>

definition pixel_threshold :: "num \<Rightarrow> num" where
  "pixel_threshold s = js_mul (js_sub (Num 100) s) lit_2_55"

text \<open>
  \<^verbatim>\<open>const pixelCount = currentFrame.data.length / 4;\<close> and
  \<^verbatim>\<open>const motionPercentage = (changedPixels / pixelCount) * 100;\<close>
\<close>

definition percentage :: "nat \<Rightarrow> nat \<Rightarrow> num" where
  "percentage changedPixels len =
     js_mul (js_div (Num (of_nat changedPixels)) (js_div (Num (of_nat len)) (Num 4))) (Num 100)"

text \<open>The value of the local \<open>motionPercentage\<close> for a stored frame and a current frame.\<close>

definition motionPercentage :: "num \<Rightarrow> byte list \<Rightarrow> byte list \<Rightarrow> num" where
  "motionPercentage s prev cur =
     percentage (snd (compare_frames totalDiff (pixel_threshold s) prev 0 cur 0)) (length cur)"

subsection \<open>Capturing and the trigger handler\<close>

text \<open>
  \<^verbatim>\<open>if (this.captures.length > this.maxStorageImages) { this.captures.splice(this.maxStorageImages); }\<close>
  \<open>splice(start)\<close> keeps the elements before \<open>start\<close> and removes the rest. It reads \<open>start\<close>
  as an integer, cutting a fraction off towards zero and taking \<open>NaN\<close> as \<open>0\<close>; a negative
  \<open>start\<close> counts from the end of the array.
\<close>

fun splice_start :: "num \<Rightarrow> nat \<Rightarrow> nat" where
  "splice_start NaN len = 0"
| "splice_start (Num start) len =
     (let relativeStart = (if 0 \<le> start then \<lfloor>start\<rfloor> else \<lceil>start\<rceil>)
      in if relativeStart < 0 then nat (max (int len + relativeStart) 0)
         else min (nat relativeStart) len)"

definition manageStorage :: "page \<Rightarrow> camera \<Rightarrow> camera" where
  "manageStorage pg st =
     (let st1 = (if js_gt (Num (of_nat (length (captures st)))) (maxStorageImages st)
                 then st\<lparr>captures := take (splice_start (maxStorageImages st)
                                             (length (captures st))) (captures st)\<rparr>
                 else st)
      in case autoDelete_cutoff pg of
           None \<Rightarrow> st1
         | Some cutoff \<Rightarrow>
             st1\<lparr>captures := filter (\<lambda>c. cutoff < capture_timestamp c) (captures st1)\<rparr>)"

definition captureMotionImage :: "page \<Rightarrow> clock \<Rightarrow> camera \<Rightarrow> camera" where
  "captureMotionImage pg clk st =
     (if \<not> video_present pg \<or> \<not> captureCanvas_ready st then st
      else let capture = \<lparr>capture_id = now clk, capture_timestamp = now clk\<rparr>;
               st1 = st\<lparr>captures := capture # captures st\<rparr>;
               st2 = manageStorage pg st1
           in st2\<lparr>sessionCaptures := sessionCaptures st2 + 1\<rparr>)"

text \<open>
  \<open>onMotionDetected\<close>: the cooldown test, then the capture, the alert put at the front of
  \<open>alerts\<close>, the activity counter of the hour, and finally \<open>lastCaptureTime = now\<close>. The alert
  is the motion event; its level is kept as the number, not as the string \<open>toFixed(1)\<close>
  makes of it.
\<close>

definition onMotionDetected :: "page \<Rightarrow> clock \<Rightarrow> num \<Rightarrow> camera \<Rightarrow> camera" where
  "onMotionDetected pg clk level st =
     (if js_lt (Num (of_int (now clk - lastCaptureTime st))) (cooldownPeriod st) then st
      else let st1 = captureMotionImage pg clk st;
               a = \<lparr>alert_id = now clk, alert_timestamp = now clk, motionLevel = level,
                    read = False\<rparr>;
               st2 = st1\<lparr>alerts := a # alerts st1\<rparr>;
               st3 = st2\<lparr>activityData :=
                          (activityData st2)[hour clk := activityData st2 ! hour clk + 1]\<rparr>
           in st3\<lparr>lastCaptureTime := now clk\<rparr>)"

subsection \<open>detectMotion and the timer\<close>

text \<open>
  \<open>frame\<close> is what the motion canvas holds after \<open>drawImage\<close>: the video frame at the size
  of the canvas. \<open>getImageData\<close> throws for a canvas of width or height zero; the exception
  is caught by the \<open>try\<close> of \<open>detectMotion\<close>, which then returns with the frame drawn and no field changed.
  With a stored frame the loop runs on the copy \<open>currentFrame\<close>, \<open>putImageData\<close> writes the
  copy back to the canvas, and at the end \<open>lastFrame\<close> is read from the canvas.
\<close>

definition detectMotion :: "page \<Rightarrow> clock \<Rightarrow> ImageData \<Rightarrow> camera \<Rightarrow> camera" where
  "detectMotion pg clk frame st =
     (if motionCanvas st = None \<or> \<not> video_present pg \<or> \<not> video_ready pg then st
      else
        let st1 = st\<lparr>motionCanvas := Some frame\<rparr>
        in if width frame = 0 \<or> height frame = 0 then st1
           else
             let currentFrame = frame;
                 st2 =
                   (case lastFrame st1 of
                      None \<Rightarrow> st1
                    | Some prev \<Rightarrow>
                        let threshold = pixel_threshold (sensitivity st1);
                            (data', changedPixels) =
                               compare_frames totalDiff threshold (data prev) 0
                                 (data currentFrame) 0;
                            st' = st1\<lparr>motionCanvas := Some (currentFrame\<lparr>data := data'\<rparr>)\<rparr>;
                            pct = percentage changedPixels (length (data currentFrame))
                        in if js_gt pct (motionThreshold st')
                           then onMotionDetected pg clk pct st' else st')
             in st2\<lparr>lastFrame := motionCanvas st2\<rparr>)"

text \<open>The callback of \<open>setInterval\<close> in \<open>setupMotionDetection\<close>.\<close>

definition motion_tick :: "page \<Rightarrow> clock \<Rightarrow> ImageData \<Rightarrow> camera \<Rightarrow> camera" where
  "motion_tick pg clk frame st =
     (if motionDetectionActive st \<and> video_ready pg then detectMotion pg clk frame st else st)"

fun run_ticks :: "page \<Rightarrow> (clock \<times> ImageData) list \<Rightarrow> camera \<Rightarrow> camera" where
  "run_ticks pg [] st = st"
| "run_ticks pg ((clk, frame) # ts) st = run_ticks pg ts (motion_tick pg clk frame st)"

subsection \<open>The controls\<close>

definition activateBlackScreen :: "page \<Rightarrow> camera \<Rightarrow> camera" where
  "activateBlackScreen pg st =
     (if \<not> blackScreenOverlay_present pg then st else st\<lparr>blackScreenActive := True\<rparr>)"

definition deactivateBlackScreen :: "page \<Rightarrow> camera \<Rightarrow> camera" where
  "deactivateBlackScreen pg st =
     (if \<not> blackScreenOverlay_present pg then st else st\<lparr>blackScreenActive := False\<rparr>)"

text \<open>
  \<open>toggleMotionDetection\<close> flips the flag first, then returns when the button or the status
  element is missing, and only after that, on the way to off, resets \<open>lastFrame\<close>.
\<close>

definition toggleMotionDetection :: "page \<Rightarrow> camera \<Rightarrow> camera" where
  "toggleMotionDetection pg st =
     (let st1 = st\<lparr>motionDetectionActive := \<not> motionDetectionActive st\<rparr>
      in if \<not> toggleDetection_present pg \<or> \<not> detectionStatus_present pg then st1
         else if motionDetectionActive st1
           then (if blackScreenMode_checked pg then activateBlackScreen pg st1 else st1)
           else let st2 = (if blackScreenActive st1 then deactivateBlackScreen pg st1 else st1)
                in st2\<lparr>lastFrame := None\<rparr>)"

text \<open>\<open>clearRect\<close> makes every pixel of the canvas transparent black.\<close>

definition clearMotionArea :: "camera \<Rightarrow> camera" where
  "clearMotionArea st =
     st\<lparr>lastFrame := None,
        motionCanvas := map_option (\<lambda>c. c\<lparr>data := replicate (length (data c)) 0\<rparr>)
                          (motionCanvas st)\<rparr>"

text \<open>
  The listeners of the two sliders store the value of the slider as it comes, with no test:
  \<^verbatim>\<open>this.sensitivity = e.target.value;\<close> and
  \<^verbatim>\<open>this.captureDelay = e.target.value; this.cooldownPeriod = e.target.value * 1000;\<close>
  The value is a text, which the subtraction in \<open>detectMotion\<close> and the multiplication here
  read as a number; it is modelled as that number.
\<close>

definition sensitivitySlider_input :: "num \<Rightarrow> camera \<Rightarrow> camera" where
  "sensitivitySlider_input v st = st\<lparr>sensitivity := v\<rparr>"

definition captureDelay_input :: "num \<Rightarrow> camera \<Rightarrow> camera" where
  "captureDelay_input v st = st\<lparr>captureDelay := v, cooldownPeriod := js_mul v (Num 1000)\<rparr>"

subsection \<open>The settings dialog\<close>

text \<open>
  The fields of the dialog hold texts, here strings of characters with codes below 256.
  \<open>parseInt\<close> and \<open>parseFloat\<close> are the functions of the language: both skip leading white
  space and read the longest prefix of the rest that is a numeral, and give \<open>NaN\<close> when there
  is none. \<open>parseInt\<close> reads a sign and digits, in base 16 after \<open>0x\<close> and in base 10
  otherwise, so that it stops at a decimal point. \<open>parseFloat\<close> reads a sign, digits with an
  optional fraction, and an exponent when one is complete. Its numeral can also be the word
  \<open>Infinity\<close>: the result is then an infinity, which the model of numbers does not have, and
  \<open>parseFloat\<close> is \<open>None\<close> there. The value of a numeral is rounded to a double once, in the
  normal range like every number of the model.
\<close>

definition StrWhiteSpaceChar :: "char \<Rightarrow> bool" where
  "StrWhiteSpaceChar c \<longleftrightarrow>
     c = CHR 0x09 \<or> c = CHR 0x0A \<or> c = CHR 0x0B \<or> c = CHR 0x0C \<or> c = CHR 0x0D
     \<or> c = CHR 0x20 \<or> c = CHR 0xA0"

text \<open>The value of a digit or letter as a digit, and \<open>36\<close> for every other character.\<close>

definition digit_value :: "char \<Rightarrow> nat" where
  "digit_value c =
     (let n = of_char c :: nat
      in if 48 \<le> n \<and> n \<le> 57 then n - 48
         else if 97 \<le> n \<and> n \<le> 122 then n - 87
         else if 65 \<le> n \<and> n \<le> 90 then n - 55
         else 36)"

definition digits_value :: "nat \<Rightarrow> string \<Rightarrow> nat" where
  "digits_value R Z = foldl (\<lambda>n c. n * R + digit_value c) 0 Z"

definition parseInt :: "string \<Rightarrow> num" where
  "parseInt inputString =
     (let S = dropWhile StrWhiteSpaceChar inputString;
          sign = (if take 1 S = ''-'' then - 1 else 1);
          S = (if take 1 S = ''+'' \<or> take 1 S = ''-'' then drop 1 S else S);
          stripPrefix = (take 2 S = ''0x'' \<or> take 2 S = ''0X'');
          R = (if stripPrefix then 16 else 10);
          S = (if stripPrefix then drop 2 S else S);
          Z = takeWhile (\<lambda>c. digit_value c < R) S
      in if Z = [] then NaN else Num (fl (sign * of_nat (digits_value R Z))))"

text \<open>
  The exponent of a numeral: \<open>e\<close> or \<open>E\<close>, an optional sign and at least one digit. Anything
  less is not part of the numeral, and the exponent is \<open>0\<close>.
\<close>

definition ExponentPart :: "string \<Rightarrow> int" where
  "ExponentPart r =
     (if take 1 r = ''e'' \<or> take 1 r = ''E'' then
        let r1 = drop 1 r;
            negative = (take 1 r1 = ''-'');
            r2 = (if take 1 r1 = ''+'' \<or> take 1 r1 = ''-'' then drop 1 r1 else r1);
            ds = takeWhile (\<lambda>c. digit_value c < 10) r2
        in if ds = [] then 0
           else if negative then - int (digits_value 10 ds) else int (digits_value 10 ds)
      else 0)"

definition parseFloat :: "string \<Rightarrow> num option" where
  "parseFloat inputString =
     (let trimmed = dropWhile StrWhiteSpaceChar inputString;
          negative = (take 1 trimmed = ''-'');
          u = (if take 1 trimmed = ''+'' \<or> take 1 trimmed = ''-'' then drop 1 trimmed
               else trimmed)
      in if take 8 u = ''Infinity'' then None
         else
           let ip = takeWhile (\<lambda>c. digit_value c < 10) u;
               r1 = drop (length ip) u;
               dot = (take 1 r1 = ''.'');
               fp = (if dot then takeWhile (\<lambda>c. digit_value c < 10) (drop 1 r1) else []);
               r2 = (if dot then drop (1 + length fp) r1 else r1)
           in if ip = [] \<and> fp = [] then Some NaN
              else
                let e = ExponentPart r2;
                    m = of_nat (digits_value 10 ip)
                        + of_nat (digits_value 10 fp) / 10 ^ length fp;
                    mv = (if 0 \<le> e then m * 10 ^ nat e else m / 10 ^ nat (- e))
                in Some (Num (fl (if negative then - mv else mv))))"

text \<open>
  What \<open>saveSettings\<close> reads from the dialog: the value of a field, \<open>None\<close> when the page has
  no such element. \<^verbatim>\<open>document.getElementById('motionThreshold')?.value || '2'\<close> takes the
  default for a missing element and for an empty field.
\<close>

record settings_form =
  motionThreshold_value :: "string option"
  cooldownPeriod_value :: "string option"
  maxImages_value :: "string option"

definition or_default :: "string option \<Rightarrow> string \<Rightarrow> string" where
  "or_default v d = (case v of None \<Rightarrow> d | Some t \<Rightarrow> if t = [] then d else t)"

text \<open>
  \<^verbatim>\<open>this.motionThreshold = parseFloat(settings.motionThreshold);\<close>
  \<^verbatim>\<open>this.cooldownPeriod = parseInt(settings.cooldownPeriod) * 1000;\<close>
  \<^verbatim>\<open>this.maxStorageImages = parseInt(settings.maxImages);\<close>
  \<^verbatim>\<open>this.blackScreenEnabled = settings.blackScreenMode;\<close>
  Nothing tests the numbers before they are stored. The result is \<open>None\<close> when the threshold
  field spells an infinity. The image quality goes into the JPEG payload, which is left out.
\<close>

definition saveSettings :: "settings_form \<Rightarrow> page \<Rightarrow> camera \<Rightarrow> camera option" where
  "saveSettings form pg st =
     (case parseFloat (or_default (motionThreshold_value form) ''2'') of
        None \<Rightarrow> None
      | Some threshold \<Rightarrow>
          Some (st\<lparr>motionThreshold := threshold,
                   cooldownPeriod :=
                     js_mul (parseInt (or_default (cooldownPeriod_value form) ''5'')) (Num 1000),
                   maxStorageImages := parseInt (or_default (maxImages_value form) ''100''),
                   blackScreenEnabled := blackScreenMode_checked pg\<rparr>))"

definition resetSettings :: "bool \<Rightarrow> camera \<Rightarrow> camera" where
  "resetSettings confirmed st =
     (if \<not> confirmed then st
      else st\<lparr>motionThreshold := Num 2, cooldownPeriod := Num 5000,
              maxStorageImages := Num 100, sensitivity := Num 30,
              blackScreenEnabled := False\<rparr>)"

section \<open>The camera object of intro.js\<close>

text \<open>
  \<open>SecurityCameraApp\<close> has the same loop with the unweighted sum of the channel differences,
  the pixel count \<open>canvas.width * canvas.height\<close>, the fixed area threshold \<open>0.5\<close>, no
  cooldown and no \<open>try\<close>; an exception of \<open>getImageData\<close> ends the timer's callback there.
  It keeps the object \<open>currentFrame\<close> itself as \<open>lastFrame\<close>. Its alert is kept as its time.
\<close>

record SecurityCameraApp =
  motionDetectionEnabled :: bool
  intro_motionCanvas :: "ImageData option"
  intro_lastFrame :: "ImageData option"
  intro_alerts :: "int list"
  intro_sensitivity :: num

definition intro_totalDiff :: "byte list \<Rightarrow> byte list \<Rightarrow> nat \<Rightarrow> num" where
  "intro_totalDiff cur prev i =
     (let rDiff = js_abs (js_sub (rd cur i) (rd prev i));
          gDiff = js_abs (js_sub (rd cur (i + 1)) (rd prev (i + 1)));
          bDiff = js_abs (js_sub (rd cur (i + 2)) (rd prev (i + 2)))
      in js_add (js_add rDiff gDiff) bDiff)"

definition intro_percentage :: "nat \<Rightarrow> ImageData \<Rightarrow> num" where
  "intro_percentage motionPixels canvas =
     js_mul (js_div (Num (of_nat motionPixels))
               (js_mul (Num (of_nat (width canvas))) (Num (of_nat (height canvas)))))
       (Num 100)"

definition intro_onMotionDetected :: "clock \<Rightarrow> SecurityCameraApp \<Rightarrow> SecurityCameraApp" where
  "intro_onMotionDetected clk st = st\<lparr>intro_alerts := now clk # intro_alerts st\<rparr>"

definition intro_detectMotion :: "clock \<Rightarrow> ImageData \<Rightarrow> SecurityCameraApp \<Rightarrow> SecurityCameraApp" where
  "intro_detectMotion clk frame st =
     (if intro_motionCanvas st = None then st
      else
        let st1 = st\<lparr>intro_motionCanvas := Some frame\<rparr>
        in if width frame = 0 \<or> height frame = 0 then st1
           else
             (case intro_lastFrame st1 of
                None \<Rightarrow> st1\<lparr>intro_lastFrame := Some frame\<rparr>
              | Some prev \<Rightarrow>
                  let threshold = pixel_threshold (intro_sensitivity st1);
                      (data', motionPixels) =
                         compare_frames intro_totalDiff threshold (data prev) 0 (data frame) 0;
                      currentFrame = frame\<lparr>data := data'\<rparr>;
                      st' = st1\<lparr>intro_motionCanvas := Some currentFrame\<rparr>;
                      pct = intro_percentage motionPixels frame;
                      st'' = (if js_gt pct (Num (1 / 2)) then intro_onMotionDetected clk st'
                              else st')
                  in st''\<lparr>intro_lastFrame := Some currentFrame\<rparr>))"

section \<open>The contract in the words of the specification\<close>

text \<open>
  Pixel \<open>j\<close> of a frame has its red, green and blue bytes at \<open>4 * j\<close>, \<open>4 * j + 1\<close> and
  \<open>4 * j + 2\<close>. The difference of a pixel is \<open>(|R1 - R2| + |G1 - G2| + |B1 - B2|) / 3\<close>, a
  pixel is changed when its difference exceeds \<open>(100 - sensitivity) * 2.55\<close>, and the motion
  percentage is the count of changed pixels over the count of pixels, times \<open>100\<close>. The
  channel differences and the counts are integers; the division by \<open>3\<close>, the threshold and
  the percentage are computed in the numbers of the source. These definitions are written
  from the formulas and use no definition of the code above.
\<close>

definition channel_diff :: "byte \<Rightarrow> byte \<Rightarrow> rat" where
  "channel_diff a b = \<bar>of_nat (unat a) - of_nat (unat b)\<bar>"

definition channel_sum :: "byte list \<Rightarrow> byte list \<Rightarrow> nat \<Rightarrow> rat" where
  "channel_sum cur prev j =
     channel_diff (cur ! (4 * j)) (prev ! (4 * j))
     + channel_diff (cur ! (4 * j + 1)) (prev ! (4 * j + 1))
     + channel_diff (cur ! (4 * j + 2)) (prev ! (4 * j + 2))"

definition pixel_diff :: "byte list \<Rightarrow> byte list \<Rightarrow> nat \<Rightarrow> num" where
  "pixel_diff cur prev j = js_div (Num (channel_sum cur prev j)) (Num 3)"

definition threshold_of :: "num \<Rightarrow> num" where
  "threshold_of s = js_mul (js_sub (Num 100) s) (Num (fl (255 / 100)))"

definition pixel_changed :: "num \<Rightarrow> byte list \<Rightarrow> byte list \<Rightarrow> nat \<Rightarrow> bool" where
  "pixel_changed s cur prev j \<longleftrightarrow> js_gt (pixel_diff cur prev j) (threshold_of s)"

definition changed_count :: "num \<Rightarrow> byte list \<Rightarrow> byte list \<Rightarrow> nat" where
  "changed_count s cur prev = length (filter (pixel_changed s cur prev) [0..<length cur div 4])"

definition percentage_of :: "nat \<Rightarrow> nat \<Rightarrow> num" where
  "percentage_of k n = js_mul (js_div (Num (of_nat k)) (Num (of_nat n))) (Num 100)"

text \<open>
  The routine of app.js with the three recolouring writes removed: the same loop, which only
  counts, and the same \<open>detectMotion\<close> around it.
\<close>

function count_frames ::
  "(byte list \<Rightarrow> byte list \<Rightarrow> nat \<Rightarrow> num) \<Rightarrow> num \<Rightarrow> byte list \<Rightarrow> nat \<Rightarrow> byte list \<Rightarrow> nat
     \<Rightarrow> nat" where
  "count_frames diff threshold prev i cur changedPixels =
     (if i < length cur then
        (if js_gt (diff cur prev i) threshold
         then count_frames diff threshold prev (i + 4) cur (changedPixels + 1)
         else count_frames diff threshold prev (i + 4) cur changedPixels)
      else changedPixels)"
  by pat_completeness auto
termination
  by (relation "measure (\<lambda>(d, t, l, i, c, k). length c - i)") auto

definition detectMotion_plain :: "page \<Rightarrow> clock \<Rightarrow> ImageData \<Rightarrow> camera \<Rightarrow> camera" where
  "detectMotion_plain pg clk frame st =
     (if motionCanvas st = None \<or> \<not> video_present pg \<or> \<not> video_ready pg then st
      else
        let st1 = st\<lparr>motionCanvas := Some frame\<rparr>
        in if width frame = 0 \<or> height frame = 0 then st1
           else
             let st2 =
                   (case lastFrame st1 of
                      None \<Rightarrow> st1
                    | Some prev \<Rightarrow>
                        let threshold = pixel_threshold (sensitivity st1);
                            changedPixels =
                               count_frames totalDiff threshold (data prev) 0 (data frame) 0;
                            pct = percentage changedPixels (length (data frame))
                        in if js_gt pct (motionThreshold st1)
                           then onMotionDetected pg clk pct st1 else st1)
             in st2\<lparr>lastFrame := motionCanvas st2\<rparr>)"

section \<open>Example data\<close>

text \<open>
  A page with every element, a clock reading, frames of one pixel and of two by two pixels
  (alpha 255), and the camera as the constructor leaves it, over a canvas of one black pixel.
\<close>

definition page0 :: page where
  "page0 = \<lparr>video_present = True, video_ready = True, toggleDetection_present = True,
             detectionStatus_present = True, blackScreenOverlay_present = True,
             blackScreenMode_checked = False, autoDelete_cutoff = None\<rparr>"

text \<open>The same page without the element \<open>detectionStatus\<close>.\<close>

definition page1 :: page where
  "page1 = page0\<lparr>detectionStatus_present := False\<rparr>"

definition clock_at :: "int \<Rightarrow> clock" where
  "clock_at t = \<lparr>now = t, hour = 12\<rparr>"

definition rgb :: "byte \<Rightarrow> byte \<Rightarrow> byte \<Rightarrow> byte list" where
  "rgb r g b = [r, g, b, 255]"

definition pixel :: "byte \<Rightarrow> byte \<Rightarrow> byte \<Rightarrow> ImageData" where
  "pixel r g b = \<lparr>width = 1, height = 1, data = rgb r g b\<rparr>"

definition frame2x2 :: "byte list \<Rightarrow> byte list \<Rightarrow> byte list \<Rightarrow> byte list \<Rightarrow> ImageData" where
  "frame2x2 p q r s = \<lparr>width = 2, height = 2, data = p @ q @ r @ s\<rparr>"

definition camera0 :: camera where
  "camera0 = constructor (Some (pixel 0 0 0)) True"

text \<open>The camera while it watches, with a sensitivity and a stored frame.\<close>

definition watching :: "num \<Rightarrow> ImageData \<Rightarrow> camera" where
  "watching s prev = camera0\<lparr>motionDetectionActive := True, sensitivity := s, lastFrame := Some prev\<rparr>"

definition armed0 :: camera where
  "armed0 = watching (Num 30) (pixel 0 0 0)"

definition black4 :: ImageData where
  "black4 = frame2x2 (rgb 0 0 0) (rgb 0 0 0) (rgb 0 0 0) (rgb 0 0 0)"

definition white1 :: ImageData where
  "white1 = frame2x2 (rgb 255 255 255) (rgb 0 0 0) (rgb 0 0 0) (rgb 0 0 0)"

definition red1 :: ImageData where
  "red1 = frame2x2 (rgb 255 0 0) (rgb 0 0 0) (rgb 0 0 0) (rgb 0 0 0)"

definition bright1 :: ImageData where
  "bright1 = frame2x2 (rgb 255 255 254) (rgb 0 0 0) (rgb 0 0 0) (rgb 0 0 0)"

definition ticks0 :: "(clock \<times> ImageData) list" where
  "ticks0 = [(clock_at 1700000000000, pixel 255 255 255),
             (clock_at 1700000003000, pixel 0 255 255),
             (clock_at 1700000005001, pixel 0 255 255)]"

text \<open>The camera of intro.js while it watches, with a sensitivity and a stored frame.\<close>

definition intro_watching :: "num \<Rightarrow> ImageData \<Rightarrow> SecurityCameraApp" where
  "intro_watching s prev =
     \<lparr>motionDetectionEnabled = True, intro_motionCanvas = Some prev, intro_lastFrame = Some prev,
      intro_alerts = [], intro_sensitivity = s\<rparr>"

declare compare_frames.simps [simp del]

declare count_frames.simps [simp del]

section \<open>Rounding\<close>

text \<open>
  What the proofs need of \<open>fl\<close>: it keeps the sign, it is the identity on the integers
  below \<open>2 ^ 53\<close>, and it does not cross a number of the grid that the rounded value lies on.
\<close>

lemma pow2_powi: "pow2 e = 2 powi e"
  by (simp add: pow2_def power_int_def field_simps)

lemma pow2_pos: "0 < pow2 e"
  by (simp add: pow2_powi)

lemma pow2_add: "pow2 (a + b) = pow2 a * pow2 b"
  by (simp add: pow2_powi power_int_add)

lemma pow2_mono: "a \<le> b \<Longrightarrow> pow2 a \<le> pow2 b"
  by (simp add: pow2_powi power_int_increasing)

lemma pow2_strict_mono: "a < b \<Longrightarrow> pow2 a < pow2 b"
  by (simp add: pow2_powi power_int_strict_increasing)

lemma pow2_less_iff: "pow2 a < pow2 b \<longleftrightarrow> a < b"
  using pow2_strict_mono [of a b] pow2_mono [of b a] by (cases "a < b") auto

lemma pow2_nat: "0 \<le> e \<Longrightarrow> pow2 e = of_int (2 ^ nat e)"
  by (simp add: pow2_def)

lemma binade_le:
  assumes "0 < x"
  shows "pow2 (binade x) \<le> x"
proof (cases "1 \<le> x")
  case True
  then have f: "0 < \<lfloor>x\<rfloor>" by simp
  from bitlen_bounds [OF f] have "2 ^ nat (bitlen \<lfloor>x\<rfloor> - 1) \<le> \<lfloor>x\<rfloor>" by simp
  then have "(of_int (2 ^ nat (bitlen \<lfloor>x\<rfloor> - 1)) :: rat) \<le> of_int \<lfloor>x\<rfloor>"
    by (simp only: of_int_le_iff)
  also have "\<dots> \<le> x" by simp
  finally have "(2::rat) ^ nat (bitlen \<lfloor>x\<rfloor> - 1) \<le> x" by simp
  moreover have "0 \<le> bitlen \<lfloor>x\<rfloor> - 1"
    using f bitlen_bounds [OF f] by (cases "bitlen \<lfloor>x\<rfloor> \<le> 0") auto
  ultimately show ?thesis using True by (simp add: binade_def pow2_def)
next
  case False
  define m where "m = \<lceil>1 / x\<rceil> - 1"
  from False assms have "1 < 1 / x" by simp
  then have m: "0 < m" unfolding m_def by linarith
  from bitlen_bounds [OF m] have "m < 2 ^ nat (bitlen m)" by simp
  then have "m + 1 \<le> 2 ^ nat (bitlen m)" by simp
  then have "(of_int (m + 1) :: rat) \<le> of_int (2 ^ nat (bitlen m))"
    by (simp only: of_int_le_iff)
  moreover have "1 / x \<le> of_int (m + 1)" unfolding m_def by simp
  ultimately have "1 / x \<le> 2 ^ nat (bitlen m)" by simp
  then have "1 / 2 ^ nat (bitlen m) \<le> x"
    using assms by (simp add: field_simps)
  moreover have "0 \<le> bitlen m" by (rule bitlen_nonneg)
  ultimately have "pow2 (- bitlen m) \<le> x"
    by (auto simp: pow2_def)
  then show ?thesis using False by (simp add: binade_def m_def)
qed

lemma round_half_even_cases: "round_half_even q = \<lfloor>q\<rfloor> \<or> round_half_even q = \<lfloor>q\<rfloor> + 1"
  by (simp add: round_half_even_def Let_def)

lemma round_half_even_of_int: "round_half_even (of_int n) = n"
  by (simp add: round_half_even_def)

lemma round_half_even_ge:
  assumes "of_int n \<le> q"
  shows "n \<le> round_half_even q"
proof -
  have "n \<le> \<lfloor>q\<rfloor>" using assms by (simp add: le_floor_iff)
  then show ?thesis using round_half_even_cases [of q] by auto
qed

lemma round_half_even_le:
  assumes "q \<le> of_int n"
  shows "round_half_even q \<le> n"
proof (cases "q = of_int n")
  case True
  then show ?thesis by (simp add: round_half_even_of_int)
next
  case False
  then have "q < of_int n" using assms by simp
  then have "\<lfloor>q\<rfloor> < n" by (simp add: floor_less_iff)
  then show ?thesis using round_half_even_cases [of q] by auto
qed

lemma fl_zero: "fl 0 = 0"
  by (simp add: fl_def)

lemma scaled_ge:
  assumes "0 < x"
  shows "of_int (2 ^ 52) \<le> x / pow2 (binade x - 52)"
proof -
  have "pow2 (binade x - 52) * 2 ^ 52 = pow2 (binade x - 52) * pow2 52"
    by (simp add: pow2_def)
  also have "\<dots> = pow2 (binade x)" by (simp add: pow2_add [symmetric])
  also have "\<dots> \<le> x" by (rule binade_le [OF assms])
  finally show ?thesis using pow2_pos [of "binade x - 52"]
    by (simp add: field_simps)
qed

lemma fl_pos:
  assumes "0 < x"
  shows "0 < fl x"
proof -
  have "2 ^ 52 \<le> round_half_even (x / pow2 (binade x - 52))"
    by (rule round_half_even_ge [OF scaled_ge [OF assms]])
  then have "0 < round_half_even (x / pow2 (binade x - 52))" by simp
  then show ?thesis using assms pow2_pos [of "binade x - 52"]
    by (simp add: fl_def Let_def)
qed

lemma fl_neg:
  assumes "x < 0"
  shows "fl x < 0"
proof -
  have p: "0 < - x" using assms by simp
  have "x / pow2 (binade (- x) - 52) \<le> - of_int (2 ^ 52)"
    using scaled_ge [OF p] by simp
  then have "x / pow2 (binade (- x) - 52) \<le> of_int (- (2 ^ 52))" by simp
  then have "round_half_even (x / pow2 (binade (- x) - 52)) \<le> - (2 ^ 52)"
    by (rule round_half_even_le)
  then have "round_half_even (x / pow2 (binade (- x) - 52)) < 0" by simp
  then show ?thesis using assms pow2_pos [of "binade (- x) - 52"]
    by (simp add: fl_def Let_def mult_neg_pos)
qed

lemma fl_pos_iff: "0 < fl x \<longleftrightarrow> 0 < x"
  using fl_pos [of x] fl_neg [of x] fl_zero by (cases "x = 0"; cases "0 < x") auto

lemma fl_eq_0_iff: "fl x = 0 \<longleftrightarrow> x = 0"
  using fl_pos [of x] fl_neg [of x] fl_zero by (cases "x = 0"; cases "0 < x") auto

lemma fl_nonneg_iff: "0 \<le> fl x \<longleftrightarrow> 0 \<le> x"
  using fl_pos_iff [of x] fl_eq_0_iff [of x] by (auto simp: less_le)

lemma pow2_le_iff: "pow2 a \<le> pow2 b \<longleftrightarrow> a \<le> b"
  using pow2_less_iff [of b a] by (auto simp: not_less [symmetric])

lemma pow2_neg_mult: "e \<le> 0 \<Longrightarrow> x / pow2 e = x * 2 ^ nat (- e)"
  by (cases "e = 0") (simp_all add: pow2_def)

lemma fl_of_int:
  assumes "\<bar>n\<bar> < 2 ^ 53"
  shows "fl (of_int n) = of_int n"
proof (cases "n = 0")
  case True
  then show ?thesis by (simp add: fl_def)
next
  case False
  define a :: rat where "a = \<bar>of_int n\<bar>"
  define e where "e = binade a - 52"
  have a: "0 < a" using False by (simp add: a_def)
  have "a = of_int \<bar>n\<bar>" by (simp add: a_def)
  also have "\<dots> < of_int (2 ^ 53)" using assms by (simp only: of_int_less_iff)
  finally have "a < pow2 53" by (simp add: pow2_def)
  with binade_le [OF a] have "pow2 (binade a) < pow2 53" by simp
  then have e: "e \<le> 0" by (simp add: pow2_less_iff e_def)
  have "of_int n / pow2 e = (of_int (n * 2 ^ nat (- e)) :: rat)"
    using e by (simp add: pow2_neg_mult)
  then have "round_half_even (of_int n / pow2 e) = n * 2 ^ nat (- e)"
    by (simp only: round_half_even_of_int)
  then have "of_int (round_half_even (of_int n / pow2 e)) * pow2 e = of_int n * (2 ^ nat (- e) * pow2 e)"
    by simp
  also have "2 ^ nat (- e) * pow2 e = 1"
    using e by (cases "e = 0") (simp_all add: pow2_def)
  finally show ?thesis using False by (simp add: fl_def Let_def a_def e_def)
qed

lemma fl_of_nat: "n < 2 ^ 53 \<Longrightarrow> fl (of_nat n) = of_nat n"
  using fl_of_int [of "int n"] by simp

lemma fl_le_grid:
  assumes x: "0 < x" and le: "x \<le> of_int m * pow2 g" and top: "of_int m * pow2 g < pow2 (g + 53)"
  shows "fl x \<le> of_int m * pow2 g"
proof -
  define e where "e = binade x - 52"
  have "pow2 (binade x) \<le> x" by (rule binade_le [OF x])
  with le top have "pow2 (binade x) < pow2 (g + 53)" by simp
  then have e: "e \<le> g" by (simp add: pow2_less_iff e_def)
  have "pow2 g = pow2 (g - e) * pow2 e" by (simp add: pow2_add [symmetric])
  also have "pow2 (g - e) = of_int (2 ^ nat (g - e))" using e by (simp add: pow2_def)
  finally have grid: "of_int m * pow2 g = of_int (m * 2 ^ nat (g - e)) * pow2 e" by simp
  have "x / pow2 e \<le> of_int (m * 2 ^ nat (g - e))"
    using le pow2_pos [of e] unfolding grid by (simp add: field_simps)
  then have "round_half_even (x / pow2 e) \<le> m * 2 ^ nat (g - e)"
    by (rule round_half_even_le)
  then have "(of_int (round_half_even (x / pow2 e)) :: rat) \<le> of_int (m * 2 ^ nat (g - e))"
    by (simp only: of_int_le_iff)
  then have "of_int (round_half_even (x / pow2 e)) * pow2 e \<le> of_int (m * 2 ^ nat (g - e)) * pow2 e"
    using pow2_pos [of e] by (simp only: mult_le_cancel_right_pos)
  then show ?thesis using x unfolding grid by (simp add: fl_def Let_def e_def)
qed

text \<open>
  \<open>binade\<close> is the binary exponent, and \<open>fl\<close> rounds to nearest: the rounded value is a
  multiple of \<open>2 ^ (binade x - 52)\<close> at most half of that unit away from \<open>x\<close>.
\<close>

lemma binade_less:
  assumes "0 < x"
  shows "x < pow2 (binade x + 1)"
proof (cases "1 \<le> x")
  case True
  then have f: "0 < \<lfloor>x\<rfloor>" by simp
  from bitlen_bounds [OF f] have "\<lfloor>x\<rfloor> < 2 ^ nat (bitlen \<lfloor>x\<rfloor>)" by simp
  then have "\<lfloor>x\<rfloor> + 1 \<le> 2 ^ nat (bitlen \<lfloor>x\<rfloor>)" by simp
  then have "(of_int (\<lfloor>x\<rfloor> + 1) :: rat) \<le> of_int (2 ^ nat (bitlen \<lfloor>x\<rfloor>))"
    by (simp only: of_int_le_iff)
  moreover have "x < of_int (\<lfloor>x\<rfloor> + 1)" by linarith
  ultimately have "x < 2 ^ nat (bitlen \<lfloor>x\<rfloor>)" by simp
  moreover have "0 \<le> bitlen \<lfloor>x\<rfloor>" by (rule bitlen_nonneg)
  ultimately show ?thesis using True by (simp add: binade_def pow2_def)
next
  case False
  define m where "m = \<lceil>1 / x\<rceil> - 1"
  from False assms have "1 < 1 / x" by simp
  then have m: "0 < m" unfolding m_def by linarith
  have b: "0 < bitlen m" using m bitlen_bounds [OF m] by (cases "bitlen m \<le> 0") auto
  from bitlen_bounds [OF m] have "2 ^ nat (bitlen m - 1) \<le> m" by simp
  then have "(of_int (2 ^ nat (bitlen m - 1)) :: rat) \<le> of_int m"
    by (simp only: of_int_le_iff)
  then have le: "(2::rat) ^ nat (bitlen m - 1) \<le> of_int m" by simp
  have lt: "of_int m < 1 / x" unfolding m_def by linarith
  from le lt have "2 ^ nat (bitlen m - 1) < 1 / x" by linarith
  then have "x * 2 ^ nat (bitlen m - 1) < 1"
    using assms by (simp add: field_simps)
  then have "x < 1 / 2 ^ nat (bitlen m - 1)"
    by (simp add: field_simps)
  also have "1 / 2 ^ nat (bitlen m - 1) = pow2 (- bitlen m + 1)"
    using b by (cases "bitlen m = 1") (simp_all add: pow2_def nat_diff_distrib)
  finally show ?thesis using False by (simp add: binade_def m_def)
qed

lemma round_half_even_error: "\<bar>of_int (round_half_even q) - q\<bar> \<le> 1 / 2"
proof -
  have f: "of_int \<lfloor>q\<rfloor> \<le> q" "q < of_int \<lfloor>q\<rfloor> + 1" by linarith+
  show ?thesis
  proof (cases "q - of_int \<lfloor>q\<rfloor> < 1 / 2")
    case True
    then show ?thesis using f by (simp add: round_half_even_def Let_def)
  next
    case False
    note nl = this
    show ?thesis
    proof (cases "1 / 2 < q - of_int \<lfloor>q\<rfloor>")
      case True
      then show ?thesis using f nl by (simp add: round_half_even_def Let_def)
    next
      case False
      with nl have "q - of_int \<lfloor>q\<rfloor> = 1 / 2" by linarith
      then show ?thesis by (simp add: round_half_even_def Let_def abs_if)
    qed
  qed
qed

lemma fl_error: "\<bar>fl x - x\<bar> \<le> pow2 (binade \<bar>x\<bar> - 53)"
proof (cases "x = 0")
  case True
  then show ?thesis using pow2_pos [of "binade \<bar>x\<bar> - 53"] by (simp add: fl_def)
next
  case False
  define e where "e = binade \<bar>x\<bar> - 52"
  have p: "0 < pow2 e" by (rule pow2_pos)
  have "fl x - x = (of_int (round_half_even (x / pow2 e)) - x / pow2 e) * pow2 e"
    using False p by (simp add: fl_def Let_def e_def field_simps)
  then have "\<bar>fl x - x\<bar> = \<bar>of_int (round_half_even (x / pow2 e)) - x / pow2 e\<bar> * pow2 e"
    using p by (simp add: abs_mult)
  also have "\<dots> \<le> 1 / 2 * pow2 e"
    using round_half_even_error [of "x / pow2 e"] p by (simp only: mult_le_cancel_right_pos)
  also have "1 / 2 * pow2 e = pow2 (e - 1)"
    using pow2_add [of "e - 1" 1] by (simp add: pow2_def)
  finally show ?thesis by (simp add: e_def)
qed


section \<open>Bytes and channel differences\<close>

lemma uint_byte: "uint (a :: byte) < 256"
  using uint_bounded [of a] by simp

lemma byte_of_nat: "(of_nat (unat (a :: byte)) :: rat) = of_int (uint a)"
  by simp

lemma channel_diff_of_int: "channel_diff a b = of_int \<bar>uint a - uint b\<bar>"
  unfolding channel_diff_def byte_of_nat by simp

lemma channel_diff_nonneg: "0 \<le> channel_diff a b"
  by (simp add: channel_diff_def)

lemma channel_diff_eq_0: "channel_diff a b = 0 \<longleftrightarrow> a = b"
proof -
  have "channel_diff a b = 0 \<longleftrightarrow> \<bar>uint a - uint b\<bar> = 0"
    unfolding channel_diff_of_int by (simp only: of_int_eq_0_iff)
  also have "\<dots> \<longleftrightarrow> uint a = uint b" by linarith
  also have "\<dots> \<longleftrightarrow> a = b" by (rule word_uint_eq_iff [symmetric])
  finally show ?thesis .
qed

lemma channel_diff_le: "\<bar>uint (a::byte) - uint (b::byte)\<bar> \<le> 255"
  using uint_byte [of a] uint_byte [of b] uint_ge_0 [of a] uint_ge_0 [of b] by linarith

lemma fl_channel:
  "fl (of_nat (unat (a :: byte)) - of_nat (unat (b :: byte))) = of_nat (unat a) - of_nat (unat b)"
proof -
  have "\<bar>uint a - uint b\<bar> < 2 ^ 53"
    using channel_diff_le [of a b] by simp
  from fl_of_int [OF this] show ?thesis unfolding byte_of_nat by simp
qed

lemma js_channel:
  assumes "i < length cur" "i < length prev"
  shows "js_abs (js_sub (rd cur i) (rd prev i)) = Num (channel_diff (cur ! i) (prev ! i))"
  using assms by (simp only: rd_def if_True js_sub.simps js_abs.simps fl_channel channel_diff_def)

lemma fl_channel_sum2:
  "fl (channel_diff a b + channel_diff c d) = channel_diff a b + channel_diff c d"
proof -
  have "\<bar>\<bar>uint a - uint b\<bar> + \<bar>uint c - uint d\<bar>\<bar> < 2 ^ 53"
    using channel_diff_le [of a b] channel_diff_le [of c d] by simp
  from fl_of_int [OF this] show ?thesis unfolding channel_diff_of_int by simp
qed

lemma channel_sum_of_int:
  "channel_diff a b + channel_diff c d + channel_diff e f
     = of_int (\<bar>uint a - uint b\<bar> + \<bar>uint c - uint d\<bar> + \<bar>uint e - uint f\<bar>)"
  unfolding channel_diff_of_int by simp

lemma channel_sum_le:
  "\<bar>uint (a::byte) - uint (b::byte)\<bar> + \<bar>uint (c::byte) - uint (d::byte)\<bar> + \<bar>uint (e::byte) - uint (f::byte)\<bar> \<le> 765"
  using channel_diff_le [of a b] channel_diff_le [of c d] channel_diff_le [of e f] by linarith

lemma fl_channel_sum3:
  "fl (channel_diff a b + channel_diff c d + channel_diff e f)
     = channel_diff a b + channel_diff c d + channel_diff e f"
proof -
  have "\<bar>\<bar>uint a - uint b\<bar> + \<bar>uint c - uint d\<bar> + \<bar>uint e - uint f\<bar>\<bar> < 2 ^ 53"
    using channel_sum_le [of a b c d e f] by simp
  from fl_of_int [OF this] show ?thesis unfolding channel_sum_of_int .
qed

lemma totalDiff_pixel:
  assumes "4 * j + 2 < length cur" "length prev = length cur"
  shows "totalDiff cur prev (4 * j) = pixel_diff cur prev j"
proof -
  have i: "4 * j < length cur" "4 * j + 1 < length cur" "4 * j < length prev"
    "4 * j + 1 < length prev" "4 * j + 2 < length prev"
    using assms by simp_all
  show ?thesis
    unfolding totalDiff_def pixel_diff_def channel_sum_def Let_def
      js_channel [OF i(1) i(3)] js_channel [OF i(2) i(4)] js_channel [OF assms(1) i(5)]
    by (simp only: js_add.simps fl_channel_sum2 fl_channel_sum3)
qed

lemma intro_totalDiff_pixel:
  assumes "4 * j + 2 < length cur" "length prev = length cur"
  shows "intro_totalDiff cur prev (4 * j) = Num (channel_sum cur prev j)"
proof -
  have i: "4 * j < length cur" "4 * j + 1 < length cur" "4 * j < length prev"
    "4 * j + 1 < length prev" "4 * j + 2 < length prev"
    using assms by simp_all
  show ?thesis
    unfolding intro_totalDiff_def channel_sum_def Let_def
      js_channel [OF i(1) i(3)] js_channel [OF i(2) i(4)] js_channel [OF assms(1) i(5)]
    by (simp only: js_add.simps fl_channel_sum2 fl_channel_sum3)
qed

section \<open>The comparison loop counts the changed pixels\<close>

text \<open>The threshold of the code is the threshold of the specification.\<close>

lemma threshold_of_pixel_threshold: "threshold_of s = pixel_threshold s"
  by (simp add: threshold_of_def pixel_threshold_def lit_2_55_def)

lemma pixel_changed_threshold:
  "pixel_changed s cur prev j \<longleftrightarrow> js_gt (pixel_diff cur prev j) (pixel_threshold s)"
  by (simp add: pixel_changed_def threshold_of_pixel_threshold)


lemma compare_frames_unfold:
  "i < length cur \<Longrightarrow> compare_frames diff thr prev i cur n =
     (if js_gt (diff cur prev i) thr
      then compare_frames diff thr prev (i + 4) (cur[i := 255, i + 1 := 0, i + 2 := 0]) (n + 1)
      else compare_frames diff thr prev (i + 4) cur n)"
  by (subst compare_frames.simps) simp

lemma compare_frames_done:
  "\<not> i < length cur \<Longrightarrow> compare_frames diff thr prev i cur n = (cur, n)"
  by (subst compare_frames.simps) simp

lemma count_frames_unfold:
  "i < length cur \<Longrightarrow> count_frames diff thr prev i cur n =
     (if js_gt (diff cur prev i) thr
      then count_frames diff thr prev (i + 4) cur (n + 1)
      else count_frames diff thr prev (i + 4) cur n)"
  by (subst count_frames.simps) simp

lemma count_frames_done:
  "\<not> i < length cur \<Longrightarrow> count_frames diff thr prev i cur n = n"
  by (subst count_frames.simps) simp

lemma compare_frames_length:
  "length (fst (compare_frames diff thr prev i cur n)) = length cur"
proof (induction "length cur - i" arbitrary: i cur n rule: less_induct)
  case less
  show ?case
  proof (cases "i < length cur")
    case False
    then show ?thesis by (simp add: compare_frames_done)
  next
    case True
    let ?cur' = "cur[i := 255, i + 1 := 0, i + 2 := 0]"
    have "length ?cur' - (i + 4) < length cur - i" using True by simp
    from less.hyps [OF this]
    have 1: "length (fst (compare_frames diff thr prev (i + 4) ?cur' (n + 1))) = length cur"
      by simp
    have "length cur - (i + 4) < length cur - i" using True by simp
    from less.hyps [OF this]
    have 2: "length (fst (compare_frames diff thr prev (i + 4) cur n)) = length cur" .
    show ?thesis using 1 2 by (simp add: compare_frames_unfold [OF True])
  qed
qed

text \<open>
  A difference is local when it reads the current frame only from its index on. Both
  differences of the source are.
\<close>

lemma rd_cong: "length c = length c' \<Longrightarrow> c ! k = c' ! k \<Longrightarrow> rd c k = rd c' k"
  by (simp add: rd_def)

lemma totalDiff_local:
  assumes "length c = length c'" "\<And>k. j \<le> k \<Longrightarrow> c ! k = c' ! k"
  shows "totalDiff c p j = totalDiff c' p j"
proof -
  have r: "rd c j = rd c' j" "rd c (j + 1) = rd c' (j + 1)" "rd c (j + 2) = rd c' (j + 2)"
    by (rule rd_cong [OF assms(1)], rule assms(2), simp)+
  show ?thesis unfolding totalDiff_def r by (rule refl)
qed

lemma intro_totalDiff_local:
  assumes "length c = length c'" "\<And>k. j \<le> k \<Longrightarrow> c ! k = c' ! k"
  shows "intro_totalDiff c p j = intro_totalDiff c' p j"
proof -
  have r: "rd c j = rd c' j" "rd c (j + 1) = rd c' (j + 1)" "rd c (j + 2) = rd c' (j + 2)"
    by (rule rd_cong [OF assms(1)], rule assms(2), simp)+
  show ?thesis unfolding intro_totalDiff_def r by (rule refl)
qed

lemma count_frames_cong:
  assumes loc: "\<And>c c' p j. length c = length c' \<Longrightarrow> (\<And>k. j \<le> k \<Longrightarrow> c ! k = c' ! k)
                  \<Longrightarrow> diff c p j = diff c' p j"
  shows "length cur = length cur' \<Longrightarrow> (\<And>k. i \<le> k \<Longrightarrow> cur ! k = cur' ! k)
           \<Longrightarrow> count_frames diff thr prev i cur n = count_frames diff thr prev i cur' n"
proof (induction "length cur - i" arbitrary: i n rule: less_induct)
  case less
  have d: "diff cur prev i = diff cur' prev i"
    by (rule loc [OF less.prems(1)]) (rule less.prems(2))
  have later: "\<And>k. i + 4 \<le> k \<Longrightarrow> cur ! k = cur' ! k"
    using less.prems(2) by simp
  show ?case
  proof (cases "i < length cur")
    case False
    then show ?thesis using less.prems(1)
      by (simp add: count_frames_done)
  next
    case True
    then have "length cur - (i + 4) < length cur - i" by simp
    from less.hyps [OF this less.prems(1) later]
    have "\<And>m. count_frames diff thr prev (i + 4) cur m = count_frames diff thr prev (i + 4) cur' m" .
    moreover have "i < length cur'" using True less.prems(1) by simp
    ultimately show ?thesis
      using d by (simp add: count_frames_unfold [OF True] count_frames_unfold)
  qed
qed

lemma compare_frames_count:
  assumes loc: "\<And>c c' p j. length c = length c' \<Longrightarrow> (\<And>k. j \<le> k \<Longrightarrow> c ! k = c' ! k)
                  \<Longrightarrow> diff c p j = diff c' p j"
  shows "snd (compare_frames diff thr prev i cur n) = count_frames diff thr prev i cur n"
proof (induction "length cur - i" arbitrary: i cur n rule: less_induct)
  case less
  show ?case
  proof (cases "i < length cur")
    case False
    then show ?thesis
      by (simp add: compare_frames_done count_frames_done)
  next
    case True
    let ?cur' = "cur[i := 255, i + 1 := 0, i + 2 := 0]"
    have same: "count_frames diff thr prev (i + 4) ?cur' (n + 1)
            = count_frames diff thr prev (i + 4) cur (n + 1)"
      by (rule count_frames_cong [OF loc]) simp_all
    have "length ?cur' - (i + 4) < length cur - i" using True by simp
    from less.hyps [OF this]
    have 1: "snd (compare_frames diff thr prev (i + 4) ?cur' (n + 1))
            = count_frames diff thr prev (i + 4) ?cur' (n + 1)" .
    have "length cur - (i + 4) < length cur - i" using True by simp
    from less.hyps [OF this]
    have 2: "snd (compare_frames diff thr prev (i + 4) cur n)
            = count_frames diff thr prev (i + 4) cur n" .
    show ?thesis
      using 1 2 same
      by (simp add: compare_frames_unfold [OF True] count_frames_unfold [OF True])
  qed
qed

lemma count_frames_filter:
  assumes len: "length cur = 4 * n"
  shows "count_frames diff thr prev (4 * a) cur k
           = k + length (filter (\<lambda>j. js_gt (diff cur prev (4 * j)) thr) [a..<n])"
proof (induction "n - a" arbitrary: a k)
  case 0
  then have "\<not> 4 * a < length cur" using len by simp
  then show ?case using 0 by (simp add: count_frames_done)
next
  case (Suc m)
  then have a: "a < n" and m: "m = n - Suc a" by simp_all
  have i: "4 * a < length cur" using a len by simp
  have next_i: "4 * a + 4 = 4 * Suc a" by simp
  have upt: "[a..<n] = a # [Suc a..<n]" using a by (simp add: upt_conv_Cons)
  show ?case
    using Suc.hyps(1) [OF m]
    by (simp add: count_frames_unfold [OF i] next_i upt del: mult_Suc_right)
qed

lemma count_frames_changed_count:
  assumes "length cur = 4 * n" "length prev = length cur"
  shows "count_frames totalDiff (pixel_threshold s) prev 0 cur 0 = changed_count s cur prev"
proof -
  have "count_frames totalDiff (pixel_threshold s) prev (4 * 0) cur 0
          = 0 + length (filter (\<lambda>j. js_gt (totalDiff cur prev (4 * j)) (pixel_threshold s)) [0..<n])"
    by (rule count_frames_filter [OF assms(1)])
  moreover have "filter (\<lambda>j. js_gt (totalDiff cur prev (4 * j)) (pixel_threshold s)) [0..<n]
          = filter (pixel_changed s cur prev) [0..<n]"
  proof (rule filter_cong [OF refl])
    fix j assume "j \<in> set [0..<n]"
    then have "4 * j + 2 < length cur" using assms(1) by simp
    from totalDiff_pixel [OF this assms(2)]
    show "js_gt (totalDiff cur prev (4 * j)) (pixel_threshold s) = pixel_changed s cur prev j"
      by (simp add: pixel_changed_threshold)
  qed
  moreover have "length cur div 4 = n" using assms(1) by simp
  ultimately show ?thesis by (simp add: changed_count_def)
qed

lemma compare_frames_changed_count:
  assumes "length cur = 4 * n" "length prev = length cur"
  shows "snd (compare_frames totalDiff (pixel_threshold s) prev 0 cur 0) = changed_count s cur prev"
proof -
  have "snd (compare_frames totalDiff (pixel_threshold s) prev 0 cur 0)
          = count_frames totalDiff (pixel_threshold s) prev 0 cur 0"
  proof (rule compare_frames_count)
    fix c c' :: "byte list" and p j
    assume "length c = length c'" "\<And>k. j \<le> k \<Longrightarrow> c ! k = c' ! k"
    then show "totalDiff c p j = totalDiff c' p j" by (rule totalDiff_local)
  qed
  also have "\<dots> = changed_count s cur prev"
    by (rule count_frames_changed_count [OF assms])
  finally show ?thesis .
qed

lemma percentage_percentage_of:
  assumes "length cur = 4 * n" "0 < n" "4 * n < 2 ^ 53"
  shows "percentage k (length cur) = percentage_of k (length cur div 4)"
proof -
  have "(of_nat (4 * n) :: rat) / 4 = of_nat n" by simp
  moreover have "fl (of_nat n) = of_nat n" using assms(3) by (simp add: fl_of_nat)
  ultimately have "js_div (Num (of_nat (length cur))) (Num 4) = Num (of_nat n)"
    using assms(1) by simp
  then show ?thesis using assms(1) by (simp add: percentage_def percentage_of_def)
qed

section \<open>The trigger handler and one detection cycle\<close>

lemma captureMotionImage_keeps:
  "alerts (captureMotionImage pg clk st) = alerts st"
  "lastCaptureTime (captureMotionImage pg clk st) = lastCaptureTime st"
  "cooldownPeriod (captureMotionImage pg clk st) = cooldownPeriod st"
  "motionCanvas (captureMotionImage pg clk st) = motionCanvas st"
  "lastFrame (captureMotionImage pg clk st) = lastFrame st"
  "sensitivity (captureMotionImage pg clk st) = sensitivity st"
  "motionThreshold (captureMotionImage pg clk st) = motionThreshold st"
  "motionDetectionActive (captureMotionImage pg clk st) = motionDetectionActive st"
  by (simp_all add: captureMotionImage_def manageStorage_def Let_def split: option.split)

lemma onMotionDetected_suppressed:
  "js_lt (Num (of_int (now clk - lastCaptureTime st))) (cooldownPeriod st)
     \<Longrightarrow> onMotionDetected pg clk level st = st"
  by (simp add: onMotionDetected_def)

lemma onMotionDetected_fires:
  assumes "\<not> js_lt (Num (of_int (now clk - lastCaptureTime st))) (cooldownPeriod st)"
  shows "alerts (onMotionDetected pg clk level st) =
           \<lparr>alert_id = now clk, alert_timestamp = now clk, motionLevel = level, read = False\<rparr>
             # alerts st"
    and "lastCaptureTime (onMotionDetected pg clk level st) = now clk"
  using assms by (simp_all add: onMotionDetected_def Let_def captureMotionImage_keeps)

lemma onMotionDetected_keeps:
  "cooldownPeriod (onMotionDetected pg clk level st) = cooldownPeriod st"
  "motionCanvas (onMotionDetected pg clk level st) = motionCanvas st"
  "lastFrame (onMotionDetected pg clk level st) = lastFrame st"
  "sensitivity (onMotionDetected pg clk level st) = sensitivity st"
  "motionThreshold (onMotionDetected pg clk level st) = motionThreshold st"
  "motionDetectionActive (onMotionDetected pg clk level st) = motionDetectionActive st"
  by (simp_all add: onMotionDetected_def Let_def captureMotionImage_keeps)

lemma detectMotion_skipped:
  "motionCanvas st = None \<or> \<not> video_present pg \<or> \<not> video_ready pg
     \<Longrightarrow> detectMotion pg clk frame st = st"
  by (simp add: detectMotion_def)

lemma detectMotion_no_image:
  assumes "motionCanvas st \<noteq> None" "video_present pg" "video_ready pg"
    and "width frame = 0 \<or> height frame = 0"
  shows "detectMotion pg clk frame st = st\<lparr>motionCanvas := Some frame\<rparr>"
  using assms by (cases "motionCanvas st") (auto simp: detectMotion_def Let_def)

lemma detectMotion_first:
  assumes "motionCanvas st \<noteq> None" "video_present pg" "video_ready pg"
    and "0 < width frame" "0 < height frame" and "lastFrame st = None"
  shows "detectMotion pg clk frame st = st\<lparr>motionCanvas := Some frame, lastFrame := Some frame\<rparr>"
  using assms by (cases "motionCanvas st") (simp_all add: detectMotion_def Let_def)

lemma detectMotion_next:
  assumes "motionCanvas st \<noteq> None" "video_present pg" "video_ready pg"
    and "0 < width frame" "0 < height frame" and "lastFrame st = Some prev"
  shows "detectMotion pg clk frame st =
     (let r = compare_frames totalDiff (pixel_threshold (sensitivity st)) (data prev) 0
                (data frame) 0;
          marked = frame\<lparr>data := fst r\<rparr>;
          st' = st\<lparr>motionCanvas := Some marked\<rparr>;
          pct = percentage (snd r) (length (data frame))
      in (if js_gt pct (motionThreshold st) then onMotionDetected pg clk pct st' else st')
           \<lparr>lastFrame := Some marked\<rparr>)"
  using assms
  by (cases "motionCanvas st")
     (simp_all add: detectMotion_def Let_def split_beta onMotionDetected_keeps)

lemma detectMotion_alerts:
  assumes "motionCanvas st \<noteq> None" "video_present pg" "video_ready pg"
    and "0 < width frame" "0 < height frame" and "lastFrame st = Some prev"
  shows "alerts (detectMotion pg clk frame st) =
     (let pct = motionPercentage (sensitivity st) (data prev) (data frame)
      in if js_gt pct (motionThreshold st)
            \<and> \<not> js_lt (Num (of_int (now clk - lastCaptureTime st))) (cooldownPeriod st)
         then \<lparr>alert_id = now clk, alert_timestamp = now clk, motionLevel = pct, read = False\<rparr>
                # alerts st
         else alerts st)"
    and "lastCaptureTime (detectMotion pg clk frame st) =
     (if js_gt (motionPercentage (sensitivity st) (data prev) (data frame)) (motionThreshold st)
         \<and> \<not> js_lt (Num (of_int (now clk - lastCaptureTime st))) (cooldownPeriod st)
      then now clk else lastCaptureTime st)"
    and "lastFrame (detectMotion pg clk frame st) =
      Some (frame\<lparr>data := fst (compare_frames totalDiff (pixel_threshold (sensitivity st))
                                   (data prev) 0 (data frame) 0)\<rparr>)"
  unfolding detectMotion_next [OF assms] motionPercentage_def Let_def
  by (simp_all add: onMotionDetected_fires onMotionDetected_suppressed)

lemma detectMotion_cooldownPeriod:
  "cooldownPeriod (detectMotion pg clk frame st) = cooldownPeriod st"
  by (simp add: detectMotion_def Let_def split_beta onMotionDetected_keeps split: option.split)

lemma detectMotion_effect:
  "(alerts (detectMotion pg clk frame st) = alerts st
      \<and> lastCaptureTime (detectMotion pg clk frame st) = lastCaptureTime st)
   \<or> (\<not> js_lt (Num (of_int (now clk - lastCaptureTime st))) (cooldownPeriod st)
      \<and> lastCaptureTime (detectMotion pg clk frame st) = now clk
      \<and> (\<exists>level. alerts (detectMotion pg clk frame st) =
            \<lparr>alert_id = now clk, alert_timestamp = now clk, motionLevel = level, read = False\<rparr>
              # alerts st))"
proof (cases "motionCanvas st \<noteq> None \<and> video_present pg \<and> video_ready pg")
  case False
  then have "detectMotion pg clk frame st = st" by (auto simp: detectMotion_skipped)
  then show ?thesis by simp
next
  case guards: True
  show ?thesis
  proof (cases "0 < width frame \<and> 0 < height frame")
    case False
    then have "detectMotion pg clk frame st = st\<lparr>motionCanvas := Some frame\<rparr>"
      using guards by (auto simp: detectMotion_no_image)
    then show ?thesis by simp
  next
    case dims: True
    show ?thesis
    proof (cases "lastFrame st")
      case None
      then have "detectMotion pg clk frame st = st\<lparr>motionCanvas := Some frame, lastFrame := Some frame\<rparr>"
        using guards dims by (simp add: detectMotion_first)
      then show ?thesis by simp
    next
      case (Some prev)
      have a: "motionCanvas st \<noteq> None" "video_present pg" "video_ready pg"
        "0 < width frame" "0 < height frame"
        using guards dims by simp_all
      show ?thesis
        unfolding detectMotion_alerts [OF a Some] Let_def by auto
    qed
  qed
qed

section \<open>Evaluating the arithmetic on given numbers\<close>

lemma fl_numeral: "(numeral k :: int) < 2 ^ 53 \<Longrightarrow> fl (numeral k) = numeral k"
  using fl_of_int [of "numeral k"] by simp

lemma fl_neg_numeral: "(numeral k :: int) < 2 ^ 53 \<Longrightarrow> fl (- numeral k) = - numeral k"
  using fl_of_int [of "- numeral k"] by simp

lemma fl_one: "fl 1 = 1"
  using fl_of_int [of 1] by simp

lemma fl_dyadic:
  assumes "\<bar>m\<bar> < 2 ^ 53"
  shows "fl (of_int m * pow2 g) = of_int m * pow2 g"
proof (cases "m = 0")
  case True
  then show ?thesis by (simp add: fl_def)
next
  case False
  define x :: rat where "x = of_int m * pow2 g"
  define e where "e = binade \<bar>x\<bar> - 52"
  have ax: "\<bar>x\<bar> = of_int \<bar>m\<bar> * pow2 g"
    using pow2_pos [of g] by (simp add: x_def abs_mult)
  have pos: "0 < \<bar>x\<bar>" using False pow2_pos [of g] by (simp add: x_def)
  have "of_int \<bar>m\<bar> < (of_int (2 ^ 53) :: rat)" using assms by (simp only: of_int_less_iff)
  then have "\<bar>x\<bar> < pow2 53 * pow2 g"
    using pow2_pos [of g] unfolding ax by (simp add: pow2_def)
  then have "\<bar>x\<bar> < pow2 (53 + g)" by (simp add: pow2_add)
  with binade_le [OF pos] have "pow2 (binade \<bar>x\<bar>) < pow2 (53 + g)" by simp
  then have e: "e \<le> g" by (simp add: pow2_less_iff e_def)
  have "pow2 g = pow2 (g - e) * pow2 e" by (simp add: pow2_add [symmetric])
  also have "pow2 (g - e) = of_int (2 ^ nat (g - e))" using e by (simp add: pow2_def)
  finally have grid: "x = of_int (m * 2 ^ nat (g - e)) * pow2 e" by (simp add: x_def)
  have "x / pow2 e = of_int (m * 2 ^ nat (g - e))"
    using pow2_pos [of e] unfolding grid by simp
  then have "round_half_even (x / pow2 e) = m * 2 ^ nat (g - e)"
    by (simp only: round_half_even_of_int)
  then have "of_int (round_half_even (x / pow2 e)) * pow2 e = x"
    unfolding grid by simp
  moreover have "x \<noteq> 0" using pos by simp
  ultimately show ?thesis by (simp add: fl_def Let_def e_def x_def)
qed

lemma fl_quarter: "fl (1 / 4) = 1 / 4"
  using fl_dyadic [of 1 "- 2"] by (simp add: pow2_def)

text \<open>The thresholds of the sensitivities that the examples use, in doubles.\<close>

lemma threshold_0: "pixel_threshold (Num 0) = Num (255 - 1 / 2 ^ 45)"
  by code_simp

lemma threshold_30: "pixel_threshold (Num 30) = Num (357 / 2)"
  by code_simp

lemma threshold_50: "pixel_threshold (Num 50) = Num (255 / 2 - 1 / 2 ^ 46)"
  by code_simp

lemma threshold_100: "pixel_threshold (Num 100) = Num 0"
  by code_simp

lemma threshold_150: "pixel_threshold (Num 150) = Num (- (255 / 2 - 1 / 2 ^ 46))"
  by code_simp

lemma upt_0_4: "[0..<4] = [0, 1, 2, 3::nat]"
  by (simp add: upt_rec)

lemmas eval_loop =
  compare_frames_unfold compare_frames_done count_frames_unfold count_frames_done
  totalDiff_def intro_totalDiff_def rd_def percentage_def
  fl_numeral fl_neg_numeral fl_zero fl_one fl_quarter Let_def

lemmas eval_cycle =
  motion_tick_def detectMotion_def onMotionDetected_def captureMotionImage_def
  manageStorage_def split_beta

lemmas eval_data =
  page0_def page1_def clock_at_def rgb_def pixel_def frame2x2_def camera0_def constructor_def
  watching_def armed0_def black4_def white1_def red1_def bright1_def

lemmas eval_spec =
  changed_count_def pixel_changed_threshold pixel_diff_def channel_sum_def channel_diff_def
  percentage_of_def
  fl_numeral fl_zero fl_one fl_quarter upt_0_4

section \<open>Runs of timer ticks\<close>

lemma motion_tick_cooldownPeriod:
  "cooldownPeriod (motion_tick pg clk frame st) = cooldownPeriod st"
  by (simp add: motion_tick_def detectMotion_cooldownPeriod)

lemma motion_tick_effect:
  "(alerts (motion_tick pg clk frame st) = alerts st
      \<and> lastCaptureTime (motion_tick pg clk frame st) = lastCaptureTime st)
   \<or> (\<not> js_lt (Num (of_int (now clk - lastCaptureTime st))) (cooldownPeriod st)
      \<and> lastCaptureTime (motion_tick pg clk frame st) = now clk
      \<and> (\<exists>level. alerts (motion_tick pg clk frame st) =
            \<lparr>alert_id = now clk, alert_timestamp = now clk, motionLevel = level, read = False\<rparr>
              # alerts st))"
  using detectMotion_effect [of pg clk frame st] by (simp add: motion_tick_def)

lemma motion_tick_disabled:
  "\<not> motionDetectionActive st \<Longrightarrow> motion_tick pg clk frame st = st"
  by (simp add: motion_tick_def)

lemma run_ticks_spaced:
  assumes "0 \<le> c"
  shows "cooldownPeriod st = Num c \<Longrightarrow>
    \<exists>evs. alerts (run_ticks pg ts st) = evs @ alerts st
      \<and> sorted_wrt (\<lambda>later earlier.
            c \<le> of_int (alert_timestamp later - alert_timestamp earlier)) evs
      \<and> (\<forall>e\<in>set evs. c \<le> of_int (alert_timestamp e - lastCaptureTime st))
      \<and> alert_timestamp ` set evs \<subseteq> (now \<circ> fst) ` set ts"
proof (induction ts arbitrary: st)
  case Nil
  then show ?case by simp
next
  case (Cons t ts)
  obtain clk frame where t: "t = (clk, frame)" by (cases t)
  let ?st1 = "motion_tick pg clk frame st"
  have c1: "cooldownPeriod ?st1 = Num c"
    using Cons.prems by (simp add: motion_tick_cooldownPeriod)
  from Cons.IH [OF c1] obtain evs where
    a: "alerts (run_ticks pg ts ?st1) = evs @ alerts ?st1"
    and s: "sorted_wrt (\<lambda>later earlier.
              c \<le> of_int (alert_timestamp later - alert_timestamp earlier)) evs"
    and l: "\<forall>e\<in>set evs. c \<le> of_int (alert_timestamp e - lastCaptureTime ?st1)"
    and n: "alert_timestamp ` set evs \<subseteq> (now \<circ> fst) ` set ts"
    by blast
  from motion_tick_effect [of pg clk frame st] show ?case
  proof
    assume "alerts ?st1 = alerts st \<and> lastCaptureTime ?st1 = lastCaptureTime st"
    with a s l n show ?thesis unfolding t by (intro exI [of _ evs]) auto
  next
    assume "\<not> js_lt (Num (of_int (now clk - lastCaptureTime st))) (cooldownPeriod st)
      \<and> lastCaptureTime ?st1 = now clk
      \<and> (\<exists>level. alerts ?st1 =
            \<lparr>alert_id = now clk, alert_timestamp = now clk, motionLevel = level, read = False\<rparr>
              # alerts st)"
    then obtain level where
      gap: "c \<le> of_int (now clk - lastCaptureTime st)" and last: "lastCaptureTime ?st1 = now clk"
      and new: "alerts ?st1 =
            \<lparr>alert_id = now clk, alert_timestamp = now clk, motionLevel = level, read = False\<rparr>
              # alerts st"
      using Cons.prems by (auto simp: not_less)
    let ?a = "\<lparr>alert_id = now clk, alert_timestamp = now clk, motionLevel = level, read = False\<rparr>"
    have 1: "alerts (run_ticks pg (t # ts) st) = (evs @ [?a]) @ alerts st"
      unfolding t using a new by simp
    have after: "\<forall>e\<in>set evs. c \<le> of_int (alert_timestamp e - alert_timestamp ?a)"
      using l last by simp
    have 2: "sorted_wrt (\<lambda>later earlier.
               c \<le> of_int (alert_timestamp later - alert_timestamp earlier)) (evs @ [?a])"
      using s after by (simp add: sorted_wrt_append)
    have 3: "\<forall>e\<in>set (evs @ [?a]). c \<le> of_int (alert_timestamp e - lastCaptureTime st)"
    proof
      fix e assume "e \<in> set (evs @ [?a])"
      then consider "e \<in> set evs" | "e = ?a" by auto
      then show "c \<le> of_int (alert_timestamp e - lastCaptureTime st)"
      proof cases
        case 1
        with l last have "c \<le> of_int (alert_timestamp e - now clk)" by simp
        then have "c \<le> of_int (alert_timestamp e) - of_int (now clk)" by simp
        moreover have "c \<le> of_int (now clk) - of_int (lastCaptureTime st)"
          using gap by simp
        ultimately have "c \<le> of_int (alert_timestamp e) - of_int (lastCaptureTime st)"
          using assms by linarith
        then show ?thesis by simp
      next
        case 2
        with gap show ?thesis by simp
      qed
    qed
    have 4: "alert_timestamp ` set (evs @ [?a]) \<subseteq> (now \<circ> fst) ` set (t # ts)"
      using n unfolding t by auto
    from 1 2 3 4 show ?thesis by blast
  qed
qed

lemma cooldown_example:
  assumes cd: "cooldownPeriod st = Num 5000" and free: "5000 \<le> t - lastCaptureTime st"
  shows "alerts (onMotionDetected pg \<lparr>now = t + 5001, hour = h3\<rparr> l3
           (onMotionDetected pg \<lparr>now = t + 3000, hour = h2\<rparr> l2
             (onMotionDetected pg \<lparr>now = t, hour = h1\<rparr> l1 st)))
         = [\<lparr>alert_id = t + 5001, alert_timestamp = t + 5001, motionLevel = l3, read = False\<rparr>,
            \<lparr>alert_id = t, alert_timestamp = t, motionLevel = l1, read = False\<rparr>] @ alerts st"
proof -
  let ?s1 = "onMotionDetected pg \<lparr>now = t, hour = h1\<rparr> l1 st"
  have "(5000 :: rat) \<le> of_int (t - lastCaptureTime st)"
    using free by (metis of_int_le_iff of_int_numeral)
  then have f1: "\<not> js_lt (Num (of_int (now \<lparr>now = t, hour = h1\<rparr> - lastCaptureTime st)))
                     (cooldownPeriod st)"
    using cd by (simp add: not_less)
  have a1: "alerts ?s1 = \<lparr>alert_id = t, alert_timestamp = t, motionLevel = l1, read = False\<rparr>
      # alerts st"
    and t1: "lastCaptureTime ?s1 = t"
    using onMotionDetected_fires [OF f1, of pg l1] by simp_all
  have c1: "cooldownPeriod ?s1 = Num 5000" using cd by (simp add: onMotionDetected_keeps)
  have "js_lt (Num (of_int (now \<lparr>now = t + 3000, hour = h2\<rparr> - lastCaptureTime ?s1)))
          (cooldownPeriod ?s1)"
    unfolding t1 c1 by simp
  then have s2: "onMotionDetected pg \<lparr>now = t + 3000, hour = h2\<rparr> l2 ?s1 = ?s1"
    by (rule onMotionDetected_suppressed)
  have f3: "\<not> js_lt (Num (of_int (now \<lparr>now = t + 5001, hour = h3\<rparr> - lastCaptureTime ?s1)))
                 (cooldownPeriod ?s1)"
    unfolding t1 c1 by simp
  show ?thesis
    unfolding s2 using onMotionDetected_fires(1) [OF f3, of pg l3] a1 by simp
qed

lemma motion_tick_fires:
  assumes "motionDetectionActive st" and "motionCanvas st \<noteq> None"
    and "video_present pg" and "video_ready pg"
    and "0 < width frame" and "0 < height frame" and "lastFrame st = Some prev"
    and "js_gt (motionPercentage (sensitivity st) (data prev) (data frame)) (motionThreshold st)"
    and "\<not> js_lt (Num (of_int (now clk - lastCaptureTime st))) (cooldownPeriod st)"
  shows "alerts (motion_tick pg clk frame st) =
           \<lparr>alert_id = now clk, alert_timestamp = now clk,
              motionLevel = motionPercentage (sensitivity st) (data prev) (data frame),
              read = False\<rparr> # alerts st"
    and "lastCaptureTime (motion_tick pg clk frame st) = now clk"
proof -
  have t: "motion_tick pg clk frame st = detectMotion pg clk frame st"
    using assms(1,4) by (simp add: motion_tick_def)
  note free = assms(9)
  show "alerts (motion_tick pg clk frame st) =
           \<lparr>alert_id = now clk, alert_timestamp = now clk,
              motionLevel = motionPercentage (sensitivity st) (data prev) (data frame),
              read = False\<rparr> # alerts st"
    unfolding t detectMotion_alerts(1) [OF assms(2-7)] Let_def using assms(8) free by simp
  show "lastCaptureTime (motion_tick pg clk frame st) = now clk"
    unfolding t detectMotion_alerts(2) [OF assms(2-7)] using assms(8) free by simp
qed

section \<open>Thresholds and equal frames\<close>

lemma lit_2_55_pos: "\<exists>c. lit_2_55 = Num c \<and> 0 < c"
  by (simp add: lit_2_55_def fl_pos)

lemma pixel_threshold_nonneg:
  assumes "s \<le> 100"
  shows "\<exists>t. pixel_threshold (Num s) = Num t \<and> 0 \<le> t"
proof -
  obtain c where c: "lit_2_55 = Num c" "0 < c" using lit_2_55_pos by blast
  have "0 \<le> fl (100 - s)" using assms by (simp add: fl_nonneg_iff)
  then have "0 \<le> fl (100 - s) * c" using c(2) by simp
  then have "0 \<le> fl (fl (100 - s) * c)" by (simp only: fl_nonneg_iff)
  then show ?thesis by (simp add: pixel_threshold_def c(1))
qed

lemma pixel_diff_same: "pixel_diff cur cur j = Num 0"
  by (simp add: pixel_diff_def channel_sum_def channel_diff_def fl_zero)

lemma changed_count_same:
  assumes "s \<le> 100"
  shows "changed_count (Num s) cur cur = 0"
proof -
  obtain t where t: "pixel_threshold (Num s) = Num t" "0 \<le> t"
    using pixel_threshold_nonneg [OF assms] by blast
  have "\<not> pixel_changed (Num s) cur cur j" for j
    using t by (simp add: pixel_changed_threshold pixel_diff_same)
  then show ?thesis by (simp add: changed_count_def)
qed

lemma percentage_zero: "0 < len \<Longrightarrow> percentage 0 len = Num 0"
  by (simp add: percentage_def fl_eq_0_iff fl_zero)

lemma pixel_threshold_NaN: "pixel_threshold NaN = NaN"
  by (simp add: pixel_threshold_def)

lemma changed_count_NaN: "changed_count NaN cur prev = 0"
  by (simp add: changed_count_def pixel_changed_threshold pixel_threshold_NaN)

lemma changed_count_quiet:
  assumes "\<not> js_gt s (Num 100)"
  shows "changed_count s cur cur = 0"
proof (cases s)
  case (Num x)
  then have "x \<le> 100" using assms by simp
  then show ?thesis unfolding Num by (rule changed_count_same)
next
  case NaN
  then show ?thesis by (simp add: changed_count_NaN)
qed

lemma pixel_threshold_negative:
  assumes "100 < s"
  shows "\<exists>t. pixel_threshold (Num s) = Num t \<and> t < 0"
proof -
  obtain c where c: "lit_2_55 = Num c" "0 < c" using lit_2_55_pos by blast
  have "fl (100 - s) < 0" using assms by (simp add: fl_neg)
  then have "fl (100 - s) * c < 0" using c(2) by (simp add: mult_neg_pos)
  then have "fl (fl (100 - s) * c) < 0" by (rule fl_neg)
  then show ?thesis by (simp add: pixel_threshold_def c(1))
qed

lemma pixel_diff_nonneg: "\<exists>d. pixel_diff cur prev j = Num d \<and> 0 \<le> d"
proof -
  have "0 \<le> channel_sum cur prev j"
    unfolding channel_sum_def
    by (intro add_nonneg_nonneg channel_diff_nonneg)
  then have "0 \<le> fl (channel_sum cur prev j / 3)" by (simp add: fl_nonneg_iff)
  then show ?thesis by (simp add: pixel_diff_def)
qed

lemma pixel_changed_above_100:
  assumes "100 < s"
  shows "pixel_changed (Num s) cur prev j"
proof -
  obtain t where t: "pixel_threshold (Num s) = Num t" "t < 0"
    using pixel_threshold_negative [OF assms] by blast
  obtain d where d: "pixel_diff cur prev j = Num d" "0 \<le> d"
    using pixel_diff_nonneg by blast
  show ?thesis unfolding pixel_changed_threshold t(1) d(1) using t(2) d(2) by simp
qed

lemma changed_count_above_100:
  assumes "100 < s"
  shows "changed_count (Num s) cur prev = length cur div 4"
proof -
  have "filter (pixel_changed (Num s) cur prev) [0..<length cur div 4] = [0..<length cur div 4]"
    by (rule filter_True) (simp add: pixel_changed_above_100 [OF assms])
  then show ?thesis by (simp add: changed_count_def)
qed

lemma percentage_of_all: "0 < n \<Longrightarrow> percentage_of n n = Num 100"
  by (simp add: percentage_of_def fl_one fl_numeral)

section \<open>The two ends of the sensitivity scale\<close>

lemma channel_sum_int:
  "\<exists>n. channel_sum cur prev j = of_int n \<and> 0 \<le> n \<and> n \<le> 765"
proof -
  let ?n = "\<bar>uint (cur ! (4 * j)) - uint (prev ! (4 * j))\<bar>
            + \<bar>uint (cur ! (4 * j + 1)) - uint (prev ! (4 * j + 1))\<bar>
            + \<bar>uint (cur ! (4 * j + 2)) - uint (prev ! (4 * j + 2))\<bar>"
  have "channel_sum cur prev j = of_int ?n"
    unfolding channel_sum_def by (rule channel_sum_of_int)
  moreover have "0 \<le> ?n" by simp
  moreover have "?n \<le> 765" by (rule channel_sum_le)
  ultimately show ?thesis by blast
qed

lemma channel_sum_pos_iff:
  "0 < channel_sum cur prev j \<longleftrightarrow>
     cur ! (4 * j) \<noteq> prev ! (4 * j) \<or> cur ! (4 * j + 1) \<noteq> prev ! (4 * j + 1)
     \<or> cur ! (4 * j + 2) \<noteq> prev ! (4 * j + 2)"
proof -
  let ?a = "channel_diff (cur ! (4 * j)) (prev ! (4 * j))"
  let ?b = "channel_diff (cur ! (4 * j + 1)) (prev ! (4 * j + 1))"
  let ?c = "channel_diff (cur ! (4 * j + 2)) (prev ! (4 * j + 2))"
  have n: "0 \<le> ?a" "0 \<le> ?b" "0 \<le> ?c" by (rule channel_diff_nonneg)+
  have "0 < ?a + ?b + ?c \<longleftrightarrow> ?a \<noteq> 0 \<or> ?b \<noteq> 0 \<or> ?c \<noteq> 0"
    using n by linarith
  then show ?thesis unfolding channel_sum_def channel_diff_eq_0 .
qed

lemma pixel_changed_100:
  "pixel_changed (Num 100) cur prev j \<longleftrightarrow> 0 < channel_sum cur prev j"
  by (simp add: pixel_changed_threshold pixel_diff_def threshold_100 fl_pos_iff)

lemma intro_changed_100:
  assumes "4 * j + 2 < length cur" "length prev = length cur"
  shows "js_gt (intro_totalDiff cur prev (4 * j)) (pixel_threshold (Num 100))
           \<longleftrightarrow> 0 < channel_sum cur prev j"
  by (simp add: intro_totalDiff_pixel [OF assms] threshold_100)

lemma fl_third_below_top:
  assumes "0 \<le> n" "n \<le> 764"
  shows "fl (of_int n / 3) \<le> 255 - 1 / 2 ^ 45"
proof (cases "n = 0")
  case True
  then show ?thesis by (simp add: fl_zero)
next
  case False
  have top: "(255 :: rat) - 1 / 2 ^ 45 = of_int (255 * 2 ^ 45 - 1) * pow2 (- 45)"
    by (simp add: pow2_def)
  have "0 < n" using assms(1) False by linarith
  then have x: "(0 :: rat) < of_int n / 3" by simp
  have "(of_int n :: rat) \<le> of_int 764" using assms(2) by (simp only: of_int_le_iff)
  then have le: "(of_int n :: rat) / 3 \<le> of_int (255 * 2 ^ 45 - 1) * pow2 (- 45)"
    by (simp add: pow2_def)
  have "of_int (255 * 2 ^ 45 - 1) * pow2 (- 45) < pow2 (- 45 + 53)"
    by (simp add: pow2_def)
  from fl_le_grid [OF x le this] show ?thesis unfolding top .
qed

lemma pixel_changed_0:
  assumes "channel_sum cur prev j < 765"
  shows "\<not> pixel_changed (Num 0) cur prev j"
proof -
  obtain n where n: "channel_sum cur prev j = of_int n" "0 \<le> n"
    using channel_sum_int by blast
  have "(of_int n :: rat) < of_int 765" using assms n(1) by simp
  then have "n < 765" by (simp only: of_int_less_iff)
  then have "fl (of_int n / 3) \<le> 255 - 1 / 2 ^ 45"
    using n(2) by (intro fl_third_below_top) simp_all
  then show ?thesis
    by (simp add: pixel_changed_threshold pixel_diff_def threshold_0 n(1) not_less)
qed

lemma intro_changed_0:
  assumes "4 * j + 2 < length cur" "length prev = length cur"
  shows "js_gt (intro_totalDiff cur prev (4 * j)) (pixel_threshold (Num 0))
           \<longleftrightarrow> 255 \<le> channel_sum cur prev j"
proof -
  obtain n where n: "channel_sum cur prev j = of_int n"
    using channel_sum_int by blast
  have "(255 :: rat) - 1 / 2 ^ 45 < of_int n \<longleftrightarrow> (255 :: rat) \<le> of_int n"
  proof
    assume "(255 :: rat) - 1 / 2 ^ 45 < of_int n"
    then have "(of_int 254 :: rat) < of_int n" by simp
    then have "254 < n" by (simp only: of_int_less_iff)
    then have "255 \<le> n" by simp
    then have "(of_int 255 :: rat) \<le> of_int n" by (simp only: of_int_le_iff)
    then show "(255 :: rat) \<le> of_int n" by simp
  next
    assume "(255 :: rat) \<le> of_int n"
    then show "(255 :: rat) - 1 / 2 ^ 45 < of_int n" by simp
  qed
  then show ?thesis
    by (simp add: intro_totalDiff_pixel [OF assms] threshold_0 n)
qed
section \<open>What the loop leaves in the current frame\<close>

lemma compare_frames_marks:
  assumes loc: "\<And>c c' p j. length c = length c' \<Longrightarrow> (\<And>k. j \<le> k \<Longrightarrow> c ! k = c' ! k)
                  \<Longrightarrow> diff c p j = diff c' p j"
  shows "length cur = 4 * n \<Longrightarrow>
    (\<forall>i<4 * a. fst (compare_frames diff thr prev (4 * a) cur k) ! i = cur ! i)
    \<and> (\<forall>j. a \<le> j \<and> j < n \<longrightarrow>
          (js_gt (diff cur prev (4 * j)) thr \<longrightarrow>
             fst (compare_frames diff thr prev (4 * a) cur k) ! (4 * j) = 255
             \<and> fst (compare_frames diff thr prev (4 * a) cur k) ! (4 * j + 1) = 0
             \<and> fst (compare_frames diff thr prev (4 * a) cur k) ! (4 * j + 2) = 0
             \<and> fst (compare_frames diff thr prev (4 * a) cur k) ! (4 * j + 3) = cur ! (4 * j + 3))
          \<and> (\<not> js_gt (diff cur prev (4 * j)) thr \<longrightarrow>
             fst (compare_frames diff thr prev (4 * a) cur k) ! (4 * j) = cur ! (4 * j)
             \<and> fst (compare_frames diff thr prev (4 * a) cur k) ! (4 * j + 1) = cur ! (4 * j + 1)
             \<and> fst (compare_frames diff thr prev (4 * a) cur k) ! (4 * j + 2) = cur ! (4 * j + 2)
             \<and> fst (compare_frames diff thr prev (4 * a) cur k) ! (4 * j + 3) = cur ! (4 * j + 3)))"
proof (induction "n - a" arbitrary: a cur k)
  case 0
  then have "\<not> 4 * a < length cur" by simp
  then have "compare_frames diff thr prev (4 * a) cur k = (cur, k)"
    by (rule compare_frames_done)
  with 0 show ?case by auto
next
  case (Suc m)
  then have a: "a < n" and m: "m = n - Suc a" by simp_all
  have len: "length cur = 4 * n" by (rule Suc.prems)
  have i: "4 * a < length cur" using a len by simp
  have next_i: "4 * a + 4 = 4 * Suc a" by simp
  let ?cur' = "cur[4 * a := 255, 4 * a + 1 := 0, 4 * a + 2 := 0]"
  have len': "length ?cur' = 4 * n" using len by simp
  have keep: "?cur' ! i = cur ! i" if "i < 4 * a \<or> 4 * a + 3 \<le> i" for i
    using that by auto
  have mark: "?cur' ! (4 * a) = 255" "?cur' ! (4 * a + 1) = 0" "?cur' ! (4 * a + 2) = 0"
    using i a len by simp_all
  have same_diff: "diff ?cur' prev (4 * j) = diff cur prev (4 * j)" if "Suc a \<le> j" for j
  proof (rule loc)
    show "length ?cur' = length cur" by simp
    fix k assume "4 * j \<le> k"
    with that have "4 * a + 3 \<le> k" by simp
    then show "?cur' ! k = cur ! k" using keep by blast
  qed
  show ?case
  proof (cases "js_gt (diff cur prev (4 * a)) thr")
    case True
    let ?out = "fst (compare_frames diff thr prev (4 * Suc a) ?cur' (k + 1))"
    have out: "fst (compare_frames diff thr prev (4 * a) cur k) = ?out"
      using True by (simp add: compare_frames_unfold [OF i] next_i del: mult_Suc_right)
    note IH = Suc.hyps(1) [OF m len', of "k + 1"]
    have A: "?out ! i = ?cur' ! i" if "i < 4 * Suc a" for i
      using IH that by blast
    have B: "(js_gt (diff ?cur' prev (4 * j)) thr \<longrightarrow>
             ?out ! (4 * j) = 255 \<and> ?out ! (4 * j + 1) = 0 \<and> ?out ! (4 * j + 2) = 0
             \<and> ?out ! (4 * j + 3) = ?cur' ! (4 * j + 3))
          \<and> (\<not> js_gt (diff ?cur' prev (4 * j)) thr \<longrightarrow>
             ?out ! (4 * j) = ?cur' ! (4 * j) \<and> ?out ! (4 * j + 1) = ?cur' ! (4 * j + 1)
             \<and> ?out ! (4 * j + 2) = ?cur' ! (4 * j + 2)
             \<and> ?out ! (4 * j + 3) = ?cur' ! (4 * j + 3))"
      if "Suc a \<le> j" "j < n" for j
      using IH that by blast
    have before: "?out ! i = cur ! i" if "i < 4 * a" for i
    proof -
      have "?out ! i = ?cur' ! i" using that by (intro A) simp
      then show ?thesis using keep that by simp
    qed
    have here: "?out ! (4 * a) = 255" "?out ! (4 * a + 1) = 0" "?out ! (4 * a + 2) = 0"
      "?out ! (4 * a + 3) = cur ! (4 * a + 3)"
    proof -
      have "?out ! (4 * a) = ?cur' ! (4 * a)" by (intro A) simp
      then show "?out ! (4 * a) = 255" using mark by simp
      have "?out ! (4 * a + 1) = ?cur' ! (4 * a + 1)" by (intro A) simp
      then show "?out ! (4 * a + 1) = 0" using mark by simp
      have "?out ! (4 * a + 2) = ?cur' ! (4 * a + 2)" by (intro A) simp
      then show "?out ! (4 * a + 2) = 0" using mark by simp
      have "?out ! (4 * a + 3) = ?cur' ! (4 * a + 3)" by (intro A) simp
      then show "?out ! (4 * a + 3) = cur ! (4 * a + 3)" using keep [of "4 * a + 3"] by simp
    qed
    have later: "(js_gt (diff cur prev (4 * j)) thr \<longrightarrow>
             ?out ! (4 * j) = 255 \<and> ?out ! (4 * j + 1) = 0 \<and> ?out ! (4 * j + 2) = 0
             \<and> ?out ! (4 * j + 3) = cur ! (4 * j + 3))
          \<and> (\<not> js_gt (diff cur prev (4 * j)) thr \<longrightarrow>
             ?out ! (4 * j) = cur ! (4 * j) \<and> ?out ! (4 * j + 1) = cur ! (4 * j + 1)
             \<and> ?out ! (4 * j + 2) = cur ! (4 * j + 2)
             \<and> ?out ! (4 * j + 3) = cur ! (4 * j + 3))"
      if j: "Suc a \<le> j" "j < n" for j
    proof -
      have k: "?cur' ! (4 * j) = cur ! (4 * j)" "?cur' ! (4 * j + 1) = cur ! (4 * j + 1)"
        "?cur' ! (4 * j + 2) = cur ! (4 * j + 2)" "?cur' ! (4 * j + 3) = cur ! (4 * j + 3)"
        using j(1) by (intro keep, simp)+
      show ?thesis using B [OF j] unfolding same_diff [OF j(1)] k .
    qed
    show ?thesis
      unfolding out
    proof (intro conjI allI impI)
      fix i assume "i < 4 * a"
      then show "?out ! i = cur ! i" by (rule before)
    next
      fix j assume j: "a \<le> j \<and> j < n" and c: "js_gt (diff cur prev (4 * j)) thr"
      show "?out ! (4 * j) = 255" "?out ! (4 * j + 1) = 0" "?out ! (4 * j + 2) = 0"
        "?out ! (4 * j + 3) = cur ! (4 * j + 3)"
        using here later [of j] j c by (cases "j = a"; simp)+
    next
      fix j assume j: "a \<le> j \<and> j < n" and c: "\<not> js_gt (diff cur prev (4 * j)) thr"
      then have "Suc a \<le> j" using True by (cases "j = a") auto
      then show "?out ! (4 * j) = cur ! (4 * j)" "?out ! (4 * j + 1) = cur ! (4 * j + 1)"
        "?out ! (4 * j + 2) = cur ! (4 * j + 2)" "?out ! (4 * j + 3) = cur ! (4 * j + 3)"
        using later [of j] j c by simp_all
    qed
  next
    case False
    let ?out = "fst (compare_frames diff thr prev (4 * Suc a) cur k)"
    have out: "fst (compare_frames diff thr prev (4 * a) cur k) = ?out"
      using False by (simp add: compare_frames_unfold [OF i] next_i del: mult_Suc_right)
    note IH = Suc.hyps(1) [OF m len, of k]
    have A: "?out ! i = cur ! i" if "i < 4 * Suc a" for i
      using IH that by blast
    have B: "(js_gt (diff cur prev (4 * j)) thr \<longrightarrow>
             ?out ! (4 * j) = 255 \<and> ?out ! (4 * j + 1) = 0 \<and> ?out ! (4 * j + 2) = 0
             \<and> ?out ! (4 * j + 3) = cur ! (4 * j + 3))
          \<and> (\<not> js_gt (diff cur prev (4 * j)) thr \<longrightarrow>
             ?out ! (4 * j) = cur ! (4 * j) \<and> ?out ! (4 * j + 1) = cur ! (4 * j + 1)
             \<and> ?out ! (4 * j + 2) = cur ! (4 * j + 2)
             \<and> ?out ! (4 * j + 3) = cur ! (4 * j + 3))"
      if "Suc a \<le> j" "j < n" for j
      using IH that by blast
    have here: "?out ! (4 * a) = cur ! (4 * a)" "?out ! (4 * a + 1) = cur ! (4 * a + 1)"
      "?out ! (4 * a + 2) = cur ! (4 * a + 2)" "?out ! (4 * a + 3) = cur ! (4 * a + 3)"
      by (intro A, simp)+
    show ?thesis
      unfolding out
    proof (intro conjI allI impI)
      fix i assume "i < 4 * a"
      then show "?out ! i = cur ! i" by (intro A) simp
    next
      fix j assume j: "a \<le> j \<and> j < n" and c: "js_gt (diff cur prev (4 * j)) thr"
      then have "Suc a \<le> j" using False by (cases "j = a") auto
      then show "?out ! (4 * j) = 255" "?out ! (4 * j + 1) = 0" "?out ! (4 * j + 2) = 0"
        "?out ! (4 * j + 3) = cur ! (4 * j + 3)"
        using B [of j] j c by simp_all
    next
      fix j assume j: "a \<le> j \<and> j < n" and c: "\<not> js_gt (diff cur prev (4 * j)) thr"
      show "?out ! (4 * j) = cur ! (4 * j)" "?out ! (4 * j + 1) = cur ! (4 * j + 1)"
        "?out ! (4 * j + 2) = cur ! (4 * j + 2)" "?out ! (4 * j + 3) = cur ! (4 * j + 3)"
        using here B [of j] j c by (cases "j = a"; simp)+
    qed
  qed
qed

lemma stored_pixel:
  assumes "length cur = 4 * n" "length prev = length cur" "j < n"
  shows "(pixel_changed s cur prev j \<longrightarrow>
            fst (compare_frames totalDiff (pixel_threshold s) prev 0 cur 0) ! (4 * j) = 255
            \<and> fst (compare_frames totalDiff (pixel_threshold s) prev 0 cur 0) ! (4 * j + 1) = 0
            \<and> fst (compare_frames totalDiff (pixel_threshold s) prev 0 cur 0) ! (4 * j + 2) = 0
            \<and> fst (compare_frames totalDiff (pixel_threshold s) prev 0 cur 0) ! (4 * j + 3)
                = cur ! (4 * j + 3))
       \<and> (\<not> pixel_changed s cur prev j \<longrightarrow>
            fst (compare_frames totalDiff (pixel_threshold s) prev 0 cur 0) ! (4 * j)
                = cur ! (4 * j)
            \<and> fst (compare_frames totalDiff (pixel_threshold s) prev 0 cur 0) ! (4 * j + 1)
                = cur ! (4 * j + 1)
            \<and> fst (compare_frames totalDiff (pixel_threshold s) prev 0 cur 0) ! (4 * j + 2)
                = cur ! (4 * j + 2)
            \<and> fst (compare_frames totalDiff (pixel_threshold s) prev 0 cur 0) ! (4 * j + 3)
                = cur ! (4 * j + 3))"
proof -
  have loc: "\<And>c c' p j. length c = length c' \<Longrightarrow> (\<And>k. j \<le> k \<Longrightarrow> c ! k = c' ! k)
                  \<Longrightarrow> totalDiff c p j = totalDiff c' p j"
    by (rule totalDiff_local)
  note M = compare_frames_marks [of totalDiff cur n 0 "pixel_threshold s" prev 0,
      OF loc assms(1), unfolded mult_0_right]
  have i: "4 * j + 2 < length cur" using assms(1,3) by simp
  have c: "js_gt (totalDiff cur prev (4 * j)) (pixel_threshold s) = pixel_changed s cur prev j"
    unfolding pixel_changed_threshold totalDiff_pixel [OF i assms(2)] by (rule refl)
  from M have "\<forall>j. 0 \<le> j \<and> j < n \<longrightarrow>
          (js_gt (totalDiff cur prev (4 * j)) (pixel_threshold s) \<longrightarrow>
             fst (compare_frames totalDiff (pixel_threshold s) prev 0 cur 0) ! (4 * j) = 255
             \<and> fst (compare_frames totalDiff (pixel_threshold s) prev 0 cur 0) ! (4 * j + 1) = 0
             \<and> fst (compare_frames totalDiff (pixel_threshold s) prev 0 cur 0) ! (4 * j + 2) = 0
             \<and> fst (compare_frames totalDiff (pixel_threshold s) prev 0 cur 0) ! (4 * j + 3)
                 = cur ! (4 * j + 3))
          \<and> (\<not> js_gt (totalDiff cur prev (4 * j)) (pixel_threshold s) \<longrightarrow>
             fst (compare_frames totalDiff (pixel_threshold s) prev 0 cur 0) ! (4 * j)
                 = cur ! (4 * j)
             \<and> fst (compare_frames totalDiff (pixel_threshold s) prev 0 cur 0) ! (4 * j + 1)
                 = cur ! (4 * j + 1)
             \<and> fst (compare_frames totalDiff (pixel_threshold s) prev 0 cur 0) ! (4 * j + 2)
                 = cur ! (4 * j + 2)
             \<and> fst (compare_frames totalDiff (pixel_threshold s) prev 0 cur 0) ! (4 * j + 3)
                 = cur ! (4 * j + 3))"
    by (rule conjunct2)
  then have "(js_gt (totalDiff cur prev (4 * j)) (pixel_threshold s) \<longrightarrow>
             fst (compare_frames totalDiff (pixel_threshold s) prev 0 cur 0) ! (4 * j) = 255
             \<and> fst (compare_frames totalDiff (pixel_threshold s) prev 0 cur 0) ! (4 * j + 1) = 0
             \<and> fst (compare_frames totalDiff (pixel_threshold s) prev 0 cur 0) ! (4 * j + 2) = 0
             \<and> fst (compare_frames totalDiff (pixel_threshold s) prev 0 cur 0) ! (4 * j + 3)
                 = cur ! (4 * j + 3))
          \<and> (\<not> js_gt (totalDiff cur prev (4 * j)) (pixel_threshold s) \<longrightarrow>
             fst (compare_frames totalDiff (pixel_threshold s) prev 0 cur 0) ! (4 * j)
                 = cur ! (4 * j)
             \<and> fst (compare_frames totalDiff (pixel_threshold s) prev 0 cur 0) ! (4 * j + 1)
                 = cur ! (4 * j + 1)
             \<and> fst (compare_frames totalDiff (pixel_threshold s) prev 0 cur 0) ! (4 * j + 2)
                 = cur ! (4 * j + 2)
             \<and> fst (compare_frames totalDiff (pixel_threshold s) prev 0 cur 0) ! (4 * j + 3)
                 = cur ! (4 * j + 3))"
    using assms(3) by (elim allE [of _ j] impE) simp_all
  then show ?thesis unfolding c .
qed

section \<open>The cycle with and without the recolouring writes\<close>

lemma detectMotion_canvas:
  assumes "motionCanvas st \<noteq> None" "video_present pg" "video_ready pg"
    and "0 < width frame" "0 < height frame" and "lastFrame st = Some prev"
  shows "motionCanvas (detectMotion pg clk frame st) = lastFrame (detectMotion pg clk frame st)"
  unfolding detectMotion_next [OF assms] Let_def
  by (simp add: onMotionDetected_keeps)

lemma detectMotion_without_baseline:
  assumes "lastFrame st = None"
  shows "alerts (detectMotion pg clk frame st) = alerts st"
    and "lastCaptureTime (detectMotion pg clk frame st) = lastCaptureTime st"
  using assms by (simp_all add: detectMotion_def Let_def)

lemma onMotionDetected_canvas:
  "onMotionDetected pg clk level (st\<lparr>motionCanvas := c\<rparr>)
     = (onMotionDetected pg clk level st)\<lparr>motionCanvas := c\<rparr>"
  by (simp add: onMotionDetected_def captureMotionImage_def manageStorage_def Let_def
        split: option.split)

lemma totalDiff_count:
  "snd (compare_frames totalDiff thr prev 0 cur 0) = count_frames totalDiff thr prev 0 cur 0"
proof (rule compare_frames_count)
  fix c c' :: "byte list" and p j
  assume "length c = length c'" "\<And>k. j \<le> k \<Longrightarrow> c ! k = c' ! k"
  then show "totalDiff c p j = totalDiff c' p j" by (rule totalDiff_local)
qed

lemma detectMotion_plain_agrees:
  "detectMotion pg clk frame st =
     (detectMotion_plain pg clk frame st)
       \<lparr>motionCanvas := motionCanvas (detectMotion pg clk frame st),
        lastFrame := lastFrame (detectMotion pg clk frame st)\<rparr>"
proof (cases "motionCanvas st \<noteq> None \<and> video_present pg \<and> video_ready pg
        \<and> 0 < width frame \<and> 0 < height frame")
  case False
  then show ?thesis by (auto simp: detectMotion_def detectMotion_plain_def Let_def)
next
  case guards: True
  show ?thesis
  proof (cases "lastFrame st")
    case None
    then show ?thesis using guards
      by (auto simp: detectMotion_def detectMotion_plain_def Let_def)
  next
    case (Some prev)
    have g: "motionCanvas st \<noteq> None" "video_present pg" "video_ready pg"
      "0 < width frame" "0 < height frame"
      using guards by simp_all
    have plain: "detectMotion_plain pg clk frame st =
       (let st1 = st\<lparr>motionCanvas := Some frame\<rparr>;
            pct = percentage (count_frames totalDiff (pixel_threshold (sensitivity st))
                                (data prev) 0 (data frame) 0) (length (data frame))
        in (if js_gt pct (motionThreshold st) then onMotionDetected pg clk pct st1 else st1)
             \<lparr>lastFrame := Some frame\<rparr>)"
      using g Some
      by (cases "motionCanvas st")
         (simp_all add: detectMotion_plain_def Let_def onMotionDetected_keeps)
    show ?thesis
      unfolding detectMotion_next [OF g Some] plain Let_def totalDiff_count
      by (simp add: onMotionDetected_canvas onMotionDetected_keeps)
  qed
qed

section \<open>Texts read as numbers\<close>

lemma or_default_simps:
  "or_default None d = d" "or_default (Some []) d = d"
  "t \<noteq> [] \<Longrightarrow> or_default (Some t) d = t"
  by (simp_all add: or_default_def)

lemma parseInt_examples:
  "parseInt ''5'' = Num 5"
  "parseInt ''100'' = Num 100"
  "parseInt ''2.9'' = Num 2"
  "parseInt '' -42px'' = Num (- 42)"
  "parseInt ''0x1F'' = Num 31"
  "parseInt ''abc'' = NaN"
  "parseInt [] = NaN"
  by code_simp+

lemma parseFloat_examples:
  "parseFloat ''2'' = Some (Num 2)"
  "parseFloat ''-1'' = Some (Num (- 1))"
  "parseFloat ''2.5'' = Some (Num (5 / 2))"
  "parseFloat ''.5e1'' = Some (Num 5)"
  "parseFloat ''1e3x'' = Some (Num 1000)"
  "parseFloat ''abc'' = Some NaN"
  "parseFloat ''-Infinity'' = None"
  by code_simp+

section \<open>The claims\<close>

text \<open>
  C1. Over every run of timer ticks with the settings left alone and a cooldown that is a
  number and not negative, the events (alerts) that the run adds are at least \<open>cooldownPeriod\<close> apart, each
  from every earlier one and from \<open>lastCaptureTime\<close> at the start, however many ticks exceed
  the area threshold in between; each event carries the time of a tick of the run. A tick
  that exceeds the threshold at or after \<open>lastCaptureTime + cooldownPeriod\<close> emits. With a
  cooldown of 5000 ms and a first detection that is itself out of cooldown at time \<open>t\<close>,
  detections at \<open>t\<close>, \<open>t + 3000\<close> and \<open>t + 5001\<close> give exactly two events, at \<open>t\<close> and at
  \<open>t + 5001\<close>. A tick while detection is off changes nothing.
\<close>

theorem C1_one_event_per_cooldown:
  assumes "cooldownPeriod st = Num c" and "0 \<le> c"
  shows "(\<exists>evs. alerts (run_ticks pg ts st) = evs @ alerts st
            \<and> sorted_wrt (\<lambda>later earlier.
                  c \<le> of_int (alert_timestamp later - alert_timestamp earlier)) evs
            \<and> (\<forall>e\<in>set evs. c \<le> of_int (alert_timestamp e - lastCaptureTime st))
            \<and> alert_timestamp ` set evs \<subseteq> (now \<circ> fst) ` set ts)
    \<and> (\<forall>clk frame prev.
          motionDetectionActive st \<and> motionCanvas st \<noteq> None
          \<and> video_present pg \<and> video_ready pg \<and> 0 < width frame \<and> 0 < height frame
          \<and> lastFrame st = Some prev
          \<and> js_gt (motionPercentage (sensitivity st) (data prev) (data frame)) (motionThreshold st)
          \<and> of_int (lastCaptureTime st) + c \<le> of_int (now clk)
          \<longrightarrow> alerts (motion_tick pg clk frame st) =
                \<lparr>alert_id = now clk, alert_timestamp = now clk,
                   motionLevel = motionPercentage (sensitivity st) (data prev) (data frame),
                   read = False\<rparr> # alerts st
              \<and> lastCaptureTime (motion_tick pg clk frame st) = now clk)
    \<and> (\<forall>t h1 h2 h3 l1 l2 l3.
          c = 5000 \<and> 5000 \<le> t - lastCaptureTime st
          \<longrightarrow> alerts (onMotionDetected pg \<lparr>now = t + 5001, hour = h3\<rparr> l3
                  (onMotionDetected pg \<lparr>now = t + 3000, hour = h2\<rparr> l2
                    (onMotionDetected pg \<lparr>now = t, hour = h1\<rparr> l1 st)))
              = [\<lparr>alert_id = t + 5001, alert_timestamp = t + 5001, motionLevel = l3,
                   read = False\<rparr>,
                 \<lparr>alert_id = t, alert_timestamp = t, motionLevel = l1, read = False\<rparr>]
                @ alerts st)
    \<and> (\<forall>clk frame. \<not> motionDetectionActive st \<longrightarrow> motion_tick pg clk frame st = st)"
proof (intro conjI allI impI)
  show "\<exists>evs. alerts (run_ticks pg ts st) = evs @ alerts st
            \<and> sorted_wrt (\<lambda>later earlier.
                  c \<le> of_int (alert_timestamp later - alert_timestamp earlier)) evs
            \<and> (\<forall>e\<in>set evs. c \<le> of_int (alert_timestamp e - lastCaptureTime st))
            \<and> alert_timestamp ` set evs \<subseteq> (now \<circ> fst) ` set ts"
    by (rule run_ticks_spaced [OF assms(2,1)])
next
  fix clk :: clock and frame prev :: ImageData
  assume q: "motionDetectionActive st \<and> motionCanvas st \<noteq> None
          \<and> video_present pg \<and> video_ready pg \<and> 0 < width frame \<and> 0 < height frame
          \<and> lastFrame st = Some prev
          \<and> js_gt (motionPercentage (sensitivity st) (data prev) (data frame)) (motionThreshold st)
          \<and> of_int (lastCaptureTime st) + c \<le> of_int (now clk)"
  then have "c \<le> of_int (now clk) - of_int (lastCaptureTime st)" by linarith
  then have free: "\<not> js_lt (Num (of_int (now clk - lastCaptureTime st))) (cooldownPeriod st)"
    unfolding assms(1) by (simp add: not_less)
  from q free show "alerts (motion_tick pg clk frame st) =
                \<lparr>alert_id = now clk, alert_timestamp = now clk,
                   motionLevel = motionPercentage (sensitivity st) (data prev) (data frame),
                   read = False\<rparr> # alerts st"
    by (intro motion_tick_fires(1)) simp_all
  from q free show "lastCaptureTime (motion_tick pg clk frame st) = now clk"
    by (intro motion_tick_fires(2) [where prev = prev]) simp_all
next
  fix t h1 h2 h3 l1 l2 l3
  assume "c = 5000 \<and> 5000 \<le> t - lastCaptureTime st"
  with assms(1) have "cooldownPeriod st = Num 5000" "5000 \<le> t - lastCaptureTime st"
    by simp_all
  then show "alerts (onMotionDetected pg \<lparr>now = t + 5001, hour = h3\<rparr> l3
                  (onMotionDetected pg \<lparr>now = t + 3000, hour = h2\<rparr> l2
                    (onMotionDetected pg \<lparr>now = t, hour = h1\<rparr> l1 st)))
              = [\<lparr>alert_id = t + 5001, alert_timestamp = t + 5001, motionLevel = l3,
                   read = False\<rparr>,
                 \<lparr>alert_id = t, alert_timestamp = t, motionLevel = l1, read = False\<rparr>]
                @ alerts st"
    by (intro cooldown_example) simp_all
next
  fix clk :: clock and frame :: ImageData
  assume "\<not> motionDetectionActive st"
  then show "motion_tick pg clk frame st = st" by (rule motion_tick_disabled)
qed

theorem C1_witness:
  "cooldownPeriod armed0 = Num 5000 \<and> (0 :: rat) \<le> 5000
   \<and> map alert_timestamp (alerts (run_ticks page0 ticks0 armed0))
       = [1700000005001, 1700000000000]
   \<and> map motionLevel (alerts (run_ticks page0 ticks0 armed0)) = [Num 100, Num 100]
   \<and> (\<exists>evs. alerts (run_ticks page0 ticks0 armed0) = evs @ alerts armed0
          \<and> sorted_wrt (\<lambda>later earlier.
                5000 \<le> (of_int (alert_timestamp later - alert_timestamp earlier) :: rat)) evs
          \<and> (\<forall>e\<in>set evs.
                5000 \<le> (of_int (alert_timestamp e - lastCaptureTime armed0) :: rat))
          \<and> alert_timestamp ` set evs \<subseteq> (now \<circ> fst) ` set ticks0)"
proof -
  have h: "cooldownPeriod armed0 = Num 5000" "(0 :: rat) \<le> 5000"
    by (simp_all add: eval_data)
  have run: "alerts (run_ticks page0 ticks0 armed0) =
      [\<lparr>alert_id = 1700000005001, alert_timestamp = 1700000005001, motionLevel = Num 100,
         read = False\<rparr>,
       \<lparr>alert_id = 1700000000000, alert_timestamp = 1700000000000, motionLevel = Num 100,
         read = False\<rparr>]"
    by (simp add: ticks0_def eval_data eval_cycle threshold_30 eval_loop)
  from C1_one_event_per_cooldown [OF h, of page0 ticks0]
  have "\<exists>evs. alerts (run_ticks page0 ticks0 armed0) = evs @ alerts armed0
          \<and> sorted_wrt (\<lambda>later earlier.
                5000 \<le> (of_int (alert_timestamp later - alert_timestamp earlier) :: rat)) evs
          \<and> (\<forall>e\<in>set evs.
                5000 \<le> (of_int (alert_timestamp e - lastCaptureTime armed0) :: rat))
          \<and> alert_timestamp ` set evs \<subseteq> (now \<circ> fst) ` set ticks0"
    by (rule conjunct1)
  with h show ?thesis unfolding run by simp
qed

text \<open>
  C2, as stated, fails in its last sentence, which holds neither for every sensitivity nor
  for every area threshold. The camera receives the same frame twice, the first as its
  baseline. With the sensitivity 150, which the slider's listener stores as it is given, the
  threshold of the loop is negative: the second frame is reported as 100 percent motion, and
  an alert is added. With an area threshold of \<open>-1\<close> the second frame is reported as 0
  percent, and an alert is added all the same, because \<open>0 > -1\<close>.
\<close>

theorem C2_counterexample:
  "alerts (run_ticks page0
       [(clock_at 1700000000000, pixel 7 7 7), (clock_at 1700000000100, pixel 7 7 7)]
       (sensitivitySlider_input (Num 150) (camera0\<lparr>motionDetectionActive := True\<rparr>)))
     = [\<lparr>alert_id = 1700000000100, alert_timestamp = 1700000000100, motionLevel = Num 100,
          read = False\<rparr>]
   \<and> motionPercentage (Num 150) (data (pixel 7 7 7)) (data (pixel 7 7 7)) = Num 100
   \<and> alerts (run_ticks page0
       [(clock_at 1700000000000, pixel 7 7 7), (clock_at 1700000000100, pixel 7 7 7)]
       (camera0\<lparr>motionDetectionActive := True, motionThreshold := Num (- 1)\<rparr>))
     = [\<lparr>alert_id = 1700000000100, alert_timestamp = 1700000000100, motionLevel = Num 0,
          read = False\<rparr>]
   \<and> motionPercentage (Num 30) (data (pixel 7 7 7)) (data (pixel 7 7 7)) = Num 0"
  by (simp add: sensitivitySlider_input_def motionPercentage_def threshold_150 threshold_30
        eval_data eval_loop eval_cycle)

text \<open>
  C2, amended. For a stored previous frame and a current frame of equal size and every
  sensitivity value, the loop of \<open>detectMotion\<close> counts exactly the pixels whose difference
  \<open>(|R1 - R2| + |G1 - G2| + |B1 - B2|) / 3\<close> exceeds \<open>(100 - sensitivity) * 2.55\<close>, although it
  recolours the current frame while it runs; the motion percentage is that count over the
  number of pixels, times \<open>100\<close>; and the cycle adds an alert carrying this percentage exactly
  when the percentage exceeds the area threshold and the cooldown has passed. When the
  current frame equals the stored frame, no pixel is counted and the percentage is \<open>0\<close>
  unless the sensitivity exceeds \<open>100\<close>, and then no alert is added unless the area threshold
  is negative. A sensitivity above \<open>100\<close> makes the threshold negative: every pixel is
  counted, and the percentage is \<open>100\<close>, whatever the two frames. The arithmetic is that of
  the source's doubles: the threshold for the sensitivity \<open>x\<close> is the product of \<open>100 - x\<close>
  and \<open>2.55\<close>, each rounded.
\<close>

theorem C2_motion_percentage:
  assumes "motionCanvas st \<noteq> None" and "video_present pg" and "video_ready pg"
    and "wf_image frame" and "length (data frame) < 2 ^ 53"
    and "lastFrame st = Some prev" and "length (data prev) = length (data frame)"
  shows "snd (compare_frames totalDiff (pixel_threshold (sensitivity st)) (data prev) 0
               (data frame) 0)
           = changed_count (sensitivity st) (data frame) (data prev)
    \<and> motionPercentage (sensitivity st) (data prev) (data frame)
        = percentage_of (changed_count (sensitivity st) (data frame) (data prev))
            (length (data frame) div 4)
    \<and> alerts (detectMotion pg clk frame st)
        = (let pct = percentage_of (changed_count (sensitivity st) (data frame) (data prev))
                       (length (data frame) div 4)
           in if js_gt pct (motionThreshold st)
                 \<and> \<not> js_lt (Num (of_int (now clk - lastCaptureTime st))) (cooldownPeriod st)
              then \<lparr>alert_id = now clk, alert_timestamp = now clk, motionLevel = pct,
                      read = False\<rparr> # alerts st
              else alerts st)
    \<and> (data prev = data frame \<and> \<not> js_gt (sensitivity st) (Num 100) \<longrightarrow>
          changed_count (sensitivity st) (data frame) (data prev) = 0
          \<and> motionPercentage (sensitivity st) (data prev) (data frame) = Num 0)
    \<and> (data prev = data frame \<and> \<not> js_gt (sensitivity st) (Num 100)
          \<and> \<not> js_gt (Num 0) (motionThreshold st) \<longrightarrow>
          alerts (detectMotion pg clk frame st) = alerts st)
    \<and> (js_gt (sensitivity st) (Num 100) \<longrightarrow>
          js_lt (pixel_threshold (sensitivity st)) (Num 0)
          \<and> changed_count (sensitivity st) (data frame) (data prev) = length (data frame) div 4
          \<and> motionPercentage (sensitivity st) (data prev) (data frame) = Num 100)
    \<and> (\<forall>x. sensitivity st = Num x \<longrightarrow>
          pixel_threshold (sensitivity st) = Num (fl (fl (100 - x) * fl (255 / 100))))"
proof -
  let ?k = "changed_count (sensitivity st) (data frame) (data prev)"
  let ?n = "width frame * height frame"
  have len: "length (data frame) = 4 * ?n" and n: "0 < ?n"
    using assms(4) by (simp_all add: wf_image_def)
  have dims: "0 < width frame" "0 < height frame"
    using assms(4) by (simp_all add: wf_image_def)
  have small: "4 * ?n < 2 ^ 53" using assms(5) len by simp
  have div: "length (data frame) div 4 = ?n" using len by simp
  have count: "snd (compare_frames totalDiff (pixel_threshold (sensitivity st)) (data prev) 0
               (data frame) 0) = ?k"
    by (rule compare_frames_changed_count [OF len assms(7)])
  have pct: "motionPercentage (sensitivity st) (data prev) (data frame)
        = percentage_of ?k (length (data frame) div 4)"
    unfolding motionPercentage_def count
    by (rule percentage_percentage_of [OF len n small])
  have al: "alerts (detectMotion pg clk frame st)
        = (let pct = percentage_of ?k (length (data frame) div 4)
           in if js_gt pct (motionThreshold st)
                 \<and> \<not> js_lt (Num (of_int (now clk - lastCaptureTime st))) (cooldownPeriod st)
              then \<lparr>alert_id = now clk, alert_timestamp = now clk, motionLevel = pct,
                      read = False\<rparr> # alerts st
              else alerts st)"
    unfolding detectMotion_alerts(1) [OF assms(1-3) dims assms(6)] pct Let_def
    by (rule refl)
  have same: "?k = 0 \<and> motionPercentage (sensitivity st) (data prev) (data frame) = Num 0"
    if "data prev = data frame" "\<not> js_gt (sensitivity st) (Num 100)"
  proof -
    have k: "?k = 0"
      unfolding that(1) by (rule changed_count_quiet [OF that(2)])
    have "percentage_of 0 (length (data frame) div 4) = Num 0"
      unfolding div using n by (simp add: percentage_of_def fl_zero)
    then show ?thesis using k pct by simp
  qed
  have quiet: "alerts (detectMotion pg clk frame st) = alerts st"
    if "data prev = data frame" "\<not> js_gt (sensitivity st) (Num 100)"
      "\<not> js_gt (Num 0) (motionThreshold st)"
  proof -
    from same [OF that(1,2)]
    have "motionPercentage (sensitivity st) (data prev) (data frame) = Num 0"
      by (rule conjunct2)
    then have "percentage_of ?k (length (data frame) div 4) = Num 0" unfolding pct .
    then show ?thesis unfolding al Let_def using that(3) by simp
  qed
  have every: "js_lt (pixel_threshold (sensitivity st)) (Num 0)
      \<and> ?k = length (data frame) div 4
      \<and> motionPercentage (sensitivity st) (data prev) (data frame) = Num 100"
    if "js_gt (sensitivity st) (Num 100)"
  proof -
    from that obtain s where s: "sensitivity st = Num s" "100 < s"
      by (cases "sensitivity st") simp_all
    obtain t where t: "pixel_threshold (Num s) = Num t" "t < 0"
      using pixel_threshold_negative [OF s(2)] by blast
    have neg: "js_lt (pixel_threshold (sensitivity st)) (Num 0)"
      unfolding s(1) t(1) using t(2) by simp
    have k: "?k = length (data frame) div 4"
      unfolding s(1) by (rule changed_count_above_100 [OF s(2)])
    have "percentage_of ?n ?n = Num 100" by (rule percentage_of_all [OF n])
    then show ?thesis using neg k pct div by simp
  qed
  have formula: "pixel_threshold (sensitivity st) = Num (fl (fl (100 - x) * fl (255 / 100)))"
    if "sensitivity st = Num x" for x
    unfolding that by (simp add: pixel_threshold_def lit_2_55_def)
  show ?thesis using count pct al same quiet every formula by blast
qed

theorem C2_witness:
  "motionCanvas (watching (Num 50) black4) \<noteq> None \<and> video_present page0 \<and> video_ready page0
   \<and> wf_image white1 \<and> length (data white1) < 2 ^ 53
   \<and> lastFrame (watching (Num 50) black4) = Some black4
   \<and> length (data black4) = length (data white1)
   \<and> changed_count (Num 50) (data white1) (data black4) = 1
   \<and> motionPercentage (Num 50) (data black4) (data white1) = Num 25
   \<and> alerts (detectMotion page0 (clock_at 1700000000000) white1 (watching (Num 50) black4))
       = [\<lparr>alert_id = 1700000000000, alert_timestamp = 1700000000000, motionLevel = Num 25,
            read = False\<rparr>]
   \<and> wf_image black4 \<and> data black4 = data black4
   \<and> \<not> js_gt (sensitivity (watching (Num 50) black4)) (Num 100)
   \<and> \<not> js_gt (Num 0) (motionThreshold (watching (Num 50) black4))
   \<and> motionPercentage (Num 50) (data black4) (data black4) = Num 0
   \<and> alerts (detectMotion page0 (clock_at 1700000000000) black4 (watching (Num 50) black4))
       = []
   \<and> js_gt (sensitivity (watching (Num 150) black4)) (Num 100)
   \<and> motionPercentage (Num 150) (data black4) (data black4) = Num 100
   \<and> pixel_threshold (Num 50) = Num (fl (fl (100 - 50) * fl (255 / 100)))"
proof -
  let ?st = "watching (Num 50) black4"
  let ?hi = "watching (Num 150) black4"
  have h: "motionCanvas ?st \<noteq> None" "video_present page0" "video_ready page0"
    "wf_image white1" "length (data white1) < 2 ^ 53"
    "lastFrame ?st = Some black4" "length (data black4) = length (data white1)"
    by (simp_all add: eval_data wf_image_def)
  have h': "wf_image black4" "length (data black4) < 2 ^ 53"
    "length (data black4) = length (data black4)"
    by (simp_all add: eval_data wf_image_def)
  have hi: "motionCanvas ?hi \<noteq> None" "lastFrame ?hi = Some black4"
    "sensitivity ?hi = Num 150"
    by (simp_all add: eval_data)
  have s: "sensitivity ?st = Num 50" "motionThreshold ?st = Num 2"
    "cooldownPeriod ?st = Num 5000"
    "lastCaptureTime ?st = 0" "alerts ?st = []" "now (clock_at 1700000000000) = 1700000000000"
    by (simp_all add: eval_data)
  have q: "\<not> js_gt (sensitivity ?st) (Num 100)" "\<not> js_gt (Num 0) (motionThreshold ?st)"
    "js_gt (sensitivity ?hi) (Num 100)"
    unfolding s hi by simp_all
  have k: "changed_count (Num 50) (data white1) (data black4) = 1"
    by (simp add: eval_spec threshold_50 eval_data)
  have p: "percentage_of 1 (length (data white1) div 4) = Num 25"
    by (simp add: eval_spec eval_data)
  note T = C2_motion_percentage [OF h, of "clock_at 1700000000000"]
  note S = C2_motion_percentage [OF h(1-3) h'(1,2) h(6) h'(3), of "clock_at 1700000000000"]
  note H = C2_motion_percentage [OF hi(1) h(2,3) h'(1,2) hi(2) h'(3), of "clock_at 1700000000000"]
  have m: "motionPercentage (Num 50) (data black4) (data white1) = Num 25"
    using T unfolding s k p by (elim conjE)
  have a: "alerts (detectMotion page0 (clock_at 1700000000000) white1 ?st)
       = [\<lparr>alert_id = 1700000000000, alert_timestamp = 1700000000000, motionLevel = Num 25,
            read = False\<rparr>]"
    using T unfolding s k p Let_def by simp
  have "data black4 = data black4 \<and> \<not> js_gt (sensitivity ?st) (Num 100) \<longrightarrow>
          changed_count (sensitivity ?st) (data black4) (data black4) = 0
          \<and> motionPercentage (sensitivity ?st) (data black4) (data black4) = Num 0"
    using S by blast
  with q have m0: "motionPercentage (Num 50) (data black4) (data black4) = Num 0"
    unfolding s by blast
  have "data black4 = data black4 \<and> \<not> js_gt (sensitivity ?st) (Num 100)
          \<and> \<not> js_gt (Num 0) (motionThreshold ?st) \<longrightarrow>
          alerts (detectMotion page0 (clock_at 1700000000000) black4 ?st) = alerts ?st"
    using S by blast
  with q have a0: "alerts (detectMotion page0 (clock_at 1700000000000) black4 ?st) = []"
    unfolding s(5) by blast
  have "js_gt (sensitivity ?hi) (Num 100) \<longrightarrow>
          js_lt (pixel_threshold (sensitivity ?hi)) (Num 0)
          \<and> changed_count (sensitivity ?hi) (data black4) (data black4) = length (data black4) div 4
          \<and> motionPercentage (sensitivity ?hi) (data black4) (data black4) = Num 100"
    using H by blast
  with q have m1: "motionPercentage (Num 150) (data black4) (data black4) = Num 100"
    unfolding hi by blast
  have "\<forall>x. sensitivity ?st = Num x \<longrightarrow>
          pixel_threshold (sensitivity ?st) = Num (fl (fl (100 - x) * fl (255 / 100)))"
    using T by blast
  then have f: "pixel_threshold (Num 50) = Num (fl (fl (100 - 50) * fl (255 / 100)))"
    unfolding s by blast
  from h h'(1) q k m a m0 a0 m1 f show ?thesis by blast
qed

text \<open>
  C3, as stated, fails on \<open>detectMotion\<close> of app.js: for the all-black stored frame of two by
  two pixels, the current frame with one pure red pixel and sensitivity 50, the difference of
  the red pixel is \<open>(255 + 0 + 0) / 3 = 85\<close>, which does not exceed the threshold \<open>127.5\<close>
  (\<open>127.49999999999999\<close> in doubles): no pixel is counted, the percentage is \<open>0\<close> and not
  \<open>25\<close>, and no alert is added with the area threshold 2.
\<close>

theorem C3_counterexample:
  "snd (compare_frames totalDiff (pixel_threshold (Num 50)) (data black4) 0 (data red1) 0) = 0
   \<and> motionPercentage (Num 50) (data black4) (data red1) = Num 0
   \<and> motionPercentage (Num 50) (data black4) (data red1) \<noteq> Num 25
   \<and> alerts (detectMotion page0 (clock_at 1700000000000) red1
         ((watching (Num 50) black4)\<lparr>motionThreshold := Num 2\<rparr>)) = []"
  by (simp add: motionPercentage_def threshold_50 eval_data eval_cycle eval_loop)

text \<open>
  C3, amended. For the all-black stored frame of two by two pixels and sensitivity 50:
  in app.js (mean of the channel differences) a current frame with one pure red pixel has no
  changed pixel and the percentage \<open>0\<close>, and no alert is added with the area threshold 2 or
  50; a current frame with one pure white pixel has exactly one changed pixel and the
  percentage \<open>25\<close>, which adds an alert with the area threshold 2 when the cooldown has
  passed, none while it has not, and none with the area threshold 50. In intro.js (sum of
  the channel differences) the frame with the red pixel has exactly one changed pixel and the
  percentage \<open>25\<close>, and an alert is added (its area threshold is the constant \<open>0.5\<close>, and it
  has no cooldown).
\<close>

theorem C3_one_pixel_of_four:
  "snd (compare_frames totalDiff (pixel_threshold (Num 50)) (data black4) 0 (data red1) 0) = 0
   \<and> motionPercentage (Num 50) (data black4) (data red1) = Num 0
   \<and> alerts (detectMotion page0 clk red1
         ((watching (Num 50) black4)\<lparr>motionThreshold := Num 2\<rparr>)) = []
   \<and> alerts (detectMotion page0 clk red1
         ((watching (Num 50) black4)\<lparr>motionThreshold := Num 50\<rparr>)) = []
   \<and> snd (compare_frames totalDiff (pixel_threshold (Num 50)) (data black4) 0 (data white1) 0) = 1
   \<and> motionPercentage (Num 50) (data black4) (data white1) = Num 25
   \<and> (5000 \<le> now clk \<longrightarrow>
        alerts (detectMotion page0 clk white1
          ((watching (Num 50) black4)\<lparr>motionThreshold := Num 2\<rparr>))
        = [\<lparr>alert_id = now clk, alert_timestamp = now clk, motionLevel = Num 25,
             read = False\<rparr>])
   \<and> (now clk < 5000 \<longrightarrow>
        alerts (detectMotion page0 clk white1
          ((watching (Num 50) black4)\<lparr>motionThreshold := Num 2\<rparr>)) = [])
   \<and> alerts (detectMotion page0 clk white1
         ((watching (Num 50) black4)\<lparr>motionThreshold := Num 50\<rparr>)) = []
   \<and> snd (compare_frames intro_totalDiff (pixel_threshold (Num 50)) (data black4) 0
            (data red1) 0) = 1
   \<and> intro_percentage 1 red1 = Num 25
   \<and> intro_alerts (intro_detectMotion clk red1 (intro_watching (Num 50) black4)) = [now clk]"
proof -
  have red: "compare_frames totalDiff (pixel_threshold (Num 50)) (data black4) 0 (data red1) 0
      = (data red1, 0)"
    by (simp add: threshold_50 eval_data eval_loop)
  have white: "compare_frames totalDiff (pixel_threshold (Num 50)) (data black4) 0
      (data white1) 0 = (data red1, 1)"
    by (simp add: threshold_50 eval_data eval_loop)
  have intro: "compare_frames intro_totalDiff (pixel_threshold (Num 50)) (data black4) 0
      (data red1) 0 = (data red1, 1)"
    by (simp add: threshold_50 eval_data eval_loop)
  have p0: "percentage 0 (length (data red1)) = Num 0"
    and p1: "percentage 1 (length (data white1)) = Num 25"
    and pi: "intro_percentage 1 red1 = Num 25"
    by (simp_all add: eval_data eval_loop intro_percentage_def)
  have g: "motionCanvas ((watching (Num 50) black4)\<lparr>motionThreshold := m\<rparr>) \<noteq> None"
    "lastFrame ((watching (Num 50) black4)\<lparr>motionThreshold := m\<rparr>) = Some black4"
    "sensitivity ((watching (Num 50) black4)\<lparr>motionThreshold := m\<rparr>) = Num 50"
    "motionThreshold ((watching (Num 50) black4)\<lparr>motionThreshold := m\<rparr>) = m"
    "alerts ((watching (Num 50) black4)\<lparr>motionThreshold := m\<rparr>) = []"
    "lastCaptureTime ((watching (Num 50) black4)\<lparr>motionThreshold := m\<rparr>) = 0"
    "cooldownPeriod ((watching (Num 50) black4)\<lparr>motionThreshold := m\<rparr>) = Num 5000"
    "video_present page0" "video_ready page0"
    "0 < width red1" "0 < height red1" "0 < width white1" "0 < height white1" for m
    by (simp_all add: eval_data)
  have mr: "motionPercentage (Num 50) (data black4) (data red1) = Num 0"
    by (simp only: motionPercentage_def red snd_conv p0)
  have mw: "motionPercentage (Num 50) (data black4) (data white1) = Num 25"
    by (simp only: motionPercentage_def white snd_conv p1)
  have ar: "alerts (detectMotion page0 clk red1
         ((watching (Num 50) black4)\<lparr>motionThreshold := Num m\<rparr>)) = []" if "0 \<le> m" for m
    unfolding detectMotion_alerts(1) [OF g(1) g(8,9) g(10,11) g(2)] g mr Let_def
    using that by simp
  have aw: "alerts (detectMotion page0 clk white1
         ((watching (Num 50) black4)\<lparr>motionThreshold := Num m\<rparr>))
      = (if m < 25 \<and> 5000 \<le> now clk
         then [\<lparr>alert_id = now clk, alert_timestamp = now clk, motionLevel = Num 25,
                 read = False\<rparr>]
         else [])" for m
    unfolding detectMotion_alerts(1) [OF g(1) g(8,9) g(12,13) g(2)] g mw Let_def
    by (simp add: not_less)
  have ai: "intro_alerts (intro_detectMotion clk red1 (intro_watching (Num 50) black4))
      = [now clk]"
  proof -
    have pi': "intro_percentage (Suc 0) red1 = Num 25" using pi by simp
    show ?thesis
      using g(10,11)
      by (simp add: intro_detectMotion_def intro_watching_def intro_onMotionDetected_def
            Let_def split_beta intro pi')
  qed
  show ?thesis
    using red white intro mr mw pi ar [of 2] ar [of 50] aw [of 2] aw [of 50] ai by simp
qed

theorem C3_witness:
  "5000 \<le> now (clock_at 1700000000000)
   \<and> alerts (detectMotion page0 (clock_at 1700000000000) white1
        ((watching (Num 50) black4)\<lparr>motionThreshold := Num 2\<rparr>))
      = [\<lparr>alert_id = 1700000000000, alert_timestamp = 1700000000000, motionLevel = Num 25,
           read = False\<rparr>]
   \<and> now (clock_at 3000) < 5000
   \<and> alerts (detectMotion page0 (clock_at 3000) white1
        ((watching (Num 50) black4)\<lparr>motionThreshold := Num 2\<rparr>)) = []
   \<and> alerts (detectMotion page0 (clock_at 1700000000000) red1
        ((watching (Num 50) black4)\<lparr>motionThreshold := Num 2\<rparr>)) = []"
proof -
  have t: "now (clock_at 1700000000000) = 1700000000000" "now (clock_at 3000) = 3000"
    by (simp_all add: clock_at_def)
  show ?thesis
    using C3_one_pixel_of_four [of "clock_at 1700000000000"]
      C3_one_pixel_of_four [of "clock_at 3000"]
    unfolding t by simp
qed

text \<open>
  C4. The claim that after a cycle with a stored frame the new baseline is the input frame,
  with its original pixel values, does not hold on the code. \<open>putImageData\<close> writes the
  recoloured copy to the canvas and \<open>lastFrame\<close> is read back from the canvas, so what is
  stored is the frame after the recolouring writes: it has the size of the input frame, a
  pixel that was counted as changed is stored as red \<open>(255, 0, 0)\<close> with its own alpha, and
  only a pixel that was not counted is stored as supplied. The source's comment reads
  ``Store current frame for next comparison''.
\<close>

theorem C4_stored_frame_is_recoloured:
  assumes "motionCanvas st \<noteq> None" and "video_present pg" and "video_ready pg"
    and "wf_image frame" and "lastFrame st = Some prev"
    and "length (data prev) = length (data frame)"
    and "j < width frame * height frame"
  shows "\<exists>stored.
      lastFrame (detectMotion pg clk frame st) = Some stored
      \<and> motionCanvas (detectMotion pg clk frame st) = Some stored
      \<and> width stored = width frame \<and> height stored = height frame
      \<and> length (data stored) = length (data frame)
      \<and> (pixel_changed (sensitivity st) (data frame) (data prev) j \<longrightarrow>
            data stored ! (4 * j) = 255 \<and> data stored ! (4 * j + 1) = 0
            \<and> data stored ! (4 * j + 2) = 0
            \<and> data stored ! (4 * j + 3) = data frame ! (4 * j + 3))
      \<and> (\<not> pixel_changed (sensitivity st) (data frame) (data prev) j \<longrightarrow>
            data stored ! (4 * j) = data frame ! (4 * j)
            \<and> data stored ! (4 * j + 1) = data frame ! (4 * j + 1)
            \<and> data stored ! (4 * j + 2) = data frame ! (4 * j + 2)
            \<and> data stored ! (4 * j + 3) = data frame ! (4 * j + 3))"
proof -
  let ?thr = "pixel_threshold (sensitivity st)"
  let ?out = "fst (compare_frames totalDiff ?thr (data prev) 0 (data frame) 0)"
  let ?n = "width frame * height frame"
  have len: "length (data frame) = 4 * ?n"
    and dims: "0 < width frame" "0 < height frame"
    using assms(4) by (simp_all add: wf_image_def)
  have stored: "lastFrame (detectMotion pg clk frame st) = Some (frame\<lparr>data := ?out\<rparr>)"
    by (rule detectMotion_alerts(3) [OF assms(1-3) dims assms(5)])
  have canvas: "motionCanvas (detectMotion pg clk frame st) = Some (frame\<lparr>data := ?out\<rparr>)"
    unfolding detectMotion_canvas [OF assms(1-3) dims assms(5)] by (rule stored)
  note marks = stored_pixel [OF len assms(6,7), of "sensitivity st"]
  have d: "data (frame\<lparr>data := ?out\<rparr>) = ?out" by simp
  show ?thesis
  proof (intro exI [of _ "frame\<lparr>data := ?out\<rparr>"] conjI)
    show "lastFrame (detectMotion pg clk frame st) = Some (frame\<lparr>data := ?out\<rparr>)"
      by (rule stored)
    show "motionCanvas (detectMotion pg clk frame st) = Some (frame\<lparr>data := ?out\<rparr>)"
      by (rule canvas)
    show "length (data (frame\<lparr>data := ?out\<rparr>)) = length (data frame)"
      by (simp add: compare_frames_length)
    show "width (frame\<lparr>data := ?out\<rparr>) = width frame" by simp
    show "height (frame\<lparr>data := ?out\<rparr>) = height frame" by simp
    show "pixel_changed (sensitivity st) (data frame) (data prev) j \<longrightarrow>
            data (frame\<lparr>data := ?out\<rparr>) ! (4 * j) = 255
            \<and> data (frame\<lparr>data := ?out\<rparr>) ! (4 * j + 1) = 0
            \<and> data (frame\<lparr>data := ?out\<rparr>) ! (4 * j + 2) = 0
            \<and> data (frame\<lparr>data := ?out\<rparr>) ! (4 * j + 3) = data frame ! (4 * j + 3)"
      unfolding d using marks by (rule conjunct1)
    show "\<not> pixel_changed (sensitivity st) (data frame) (data prev) j \<longrightarrow>
            data (frame\<lparr>data := ?out\<rparr>) ! (4 * j) = data frame ! (4 * j)
            \<and> data (frame\<lparr>data := ?out\<rparr>) ! (4 * j + 1) = data frame ! (4 * j + 1)
            \<and> data (frame\<lparr>data := ?out\<rparr>) ! (4 * j + 2) = data frame ! (4 * j + 2)
            \<and> data (frame\<lparr>data := ?out\<rparr>) ! (4 * j + 3) = data frame ! (4 * j + 3)"
      unfolding d using marks by (rule conjunct2)
  qed
qed

theorem C4_witness:
  "motionCanvas armed0 \<noteq> None \<and> video_present page0 \<and> video_ready page0
   \<and> wf_image (pixel 255 255 255) \<and> lastFrame armed0 = Some (pixel 0 0 0)
   \<and> length (data (pixel 0 0 0)) = length (data (pixel 255 255 255))
   \<and> 0 < width (pixel 255 255 255) * height (pixel 255 255 255)
   \<and> pixel_changed (sensitivity armed0) (data (pixel 255 255 255)) (data (pixel 0 0 0)) 0
   \<and> lastFrame (detectMotion page0 (clock_at 1700000000000) (pixel 255 255 255) armed0)
       = Some (pixel 255 0 0)
   \<and> lastFrame (detectMotion page0 (clock_at 1700000000000) (pixel 255 255 255) armed0)
       \<noteq> Some (pixel 255 255 255)"
proof -
  have h: "motionCanvas armed0 \<noteq> None" "video_present page0" "video_ready page0"
    "wf_image (pixel 255 255 255)" "lastFrame armed0 = Some (pixel 0 0 0)"
    "length (data (pixel 0 0 0)) = length (data (pixel 255 255 255))"
    "0 < width (pixel 255 255 255) * height (pixel 255 255 255)"
    by (simp_all add: eval_data wf_image_def)
  have c: "pixel_changed (sensitivity armed0) (data (pixel 255 255 255)) (data (pixel 0 0 0)) 0"
    by (simp add: eval_spec eval_data threshold_30)
  have e: "lastFrame (detectMotion page0 (clock_at 1700000000000) (pixel 255 255 255) armed0)
       = Some (pixel 255 0 0)"
    by (simp add: eval_data eval_cycle threshold_30 eval_loop)
  from C4_stored_frame_is_recoloured [OF h, of "clock_at 1700000000000"] c
  obtain stored where
    s: "lastFrame (detectMotion page0 (clock_at 1700000000000) (pixel 255 255 255) armed0)
          = Some stored"
    and g: "data stored ! (4 * 0 + 1) = 0"
    by blast
  have "data (pixel 255 255 255) ! (4 * 0 + 1) \<noteq> (0 :: byte)" by (simp add: eval_data)
  with g have "stored \<noteq> pixel 255 255 255" by auto
  with s h c e show ?thesis by simp
qed

text \<open>
  C5. The claim that the recolouring has no effect on the numeric decision across all cycles
  does not hold on the code. Within one cycle it has none: the loop counts what the loop
  without the three writes counts, and \<open>detectMotion\<close> leaves the camera that the routine
  without the writes leaves, apart from the canvas and \<open>lastFrame\<close>; the routine without the
  writes stores the frame as supplied. But the recoloured frame is the baseline of the next
  cycle, and there the two routines measure different percentages and decide differently.
\<close>

theorem C5_recolouring_agrees_within_one_cycle:
  "snd (compare_frames totalDiff thr prev_data 0 cur 0) = count_frames totalDiff thr prev_data 0 cur 0
   \<and> detectMotion pg clk frame st =
       (detectMotion_plain pg clk frame st)
         \<lparr>motionCanvas := motionCanvas (detectMotion pg clk frame st),
          lastFrame := lastFrame (detectMotion pg clk frame st)\<rparr>
   \<and> alerts (detectMotion pg clk frame st) = alerts (detectMotion_plain pg clk frame st)
   \<and> lastCaptureTime (detectMotion pg clk frame st)
       = lastCaptureTime (detectMotion_plain pg clk frame st)
   \<and> captures (detectMotion pg clk frame st) = captures (detectMotion_plain pg clk frame st)
   \<and> (motionCanvas st \<noteq> None \<and> video_present pg \<and> video_ready pg
        \<and> 0 < width frame \<and> 0 < height frame
        \<longrightarrow> lastFrame (detectMotion_plain pg clk frame st) = Some frame)"
proof -
  note a = detectMotion_plain_agrees [of pg clk frame st]
  have 1: "alerts (detectMotion pg clk frame st) = alerts (detectMotion_plain pg clk frame st)"
    by (subst a) simp
  have 2: "lastCaptureTime (detectMotion pg clk frame st)
       = lastCaptureTime (detectMotion_plain pg clk frame st)"
    by (subst a) simp
  have 3: "captures (detectMotion pg clk frame st) = captures (detectMotion_plain pg clk frame st)"
    by (subst a) simp
  have 4: "lastFrame (detectMotion_plain pg clk frame st) = Some frame"
    if "motionCanvas st \<noteq> None \<and> video_present pg \<and> video_ready pg
        \<and> 0 < width frame \<and> 0 < height frame"
    using that
    by (cases "motionCanvas st")
       (simp_all add: detectMotion_plain_def Let_def onMotionDetected_keeps split: option.split)
  show ?thesis using totalDiff_count a 1 2 3 4 by blast
qed

theorem C5_witness:
  "alerts (detectMotion page0 (clock_at 1700000000000) (pixel 255 255 255)
      (watching (Num 50) (pixel 0 0 0)))
     = alerts (detectMotion_plain page0 (clock_at 1700000000000) (pixel 255 255 255)
         (watching (Num 50) (pixel 0 0 0)))
   \<and> lastFrame (detectMotion page0 (clock_at 1700000000000) (pixel 255 255 255)
         (watching (Num 50) (pixel 0 0 0))) = Some (pixel 255 0 0)
   \<and> lastFrame (detectMotion_plain page0 (clock_at 1700000000000) (pixel 255 255 255)
         (watching (Num 50) (pixel 0 0 0))) = Some (pixel 255 255 255)
   \<and> motionPercentage (Num 50) (data (pixel 255 0 0)) (data (pixel 255 255 255)) = Num 100
   \<and> motionPercentage (Num 50) (data (pixel 255 255 255)) (data (pixel 255 255 255)) = Num 0
   \<and> map alert_timestamp (alerts
        (detectMotion page0 (clock_at 1700000005000) (pixel 255 255 255)
          (detectMotion page0 (clock_at 1700000000000) (pixel 255 255 255)
            (watching (Num 50) (pixel 0 0 0)))))
       = [1700000005000, 1700000000000]
   \<and> map alert_timestamp (alerts
        (detectMotion_plain page0 (clock_at 1700000005000) (pixel 255 255 255)
          (detectMotion_plain page0 (clock_at 1700000000000) (pixel 255 255 255)
            (watching (Num 50) (pixel 0 0 0)))))
       = [1700000000000]"
proof -
  let ?st = "watching (Num 50) (pixel 0 0 0)"
  let ?w = "pixel 255 255 255"
  note T = C5_recolouring_agrees_within_one_cycle
    [of "pixel_threshold (Num 50)" "data (pixel 0 0 0)" "data ?w" page0
        "clock_at 1700000000000" ?w ?st]
  have same: "alerts (detectMotion page0 (clock_at 1700000000000) ?w ?st)
     = alerts (detectMotion_plain page0 (clock_at 1700000000000) ?w ?st)"
    using T by blast
  have code: "detectMotion page0 (clock_at 1700000000000) ?w ?st
      = ?st\<lparr>motionCanvas := Some (pixel 255 0 0), lastFrame := Some (pixel 255 0 0),
             captures := [\<lparr>capture_id = 1700000000000, capture_timestamp = 1700000000000\<rparr>],
             sessionCaptures := 1,
             alerts := [\<lparr>alert_id = 1700000000000, alert_timestamp = 1700000000000,
                          motionLevel = Num 100, read = False\<rparr>],
             activityData := (replicate 24 0)[12 := 1],
             lastCaptureTime := 1700000000000\<rparr>"
    by (simp add: eval_data eval_cycle threshold_50 eval_loop)
  have plain: "detectMotion_plain page0 (clock_at 1700000000000) ?w ?st
      = ?st\<lparr>motionCanvas := Some ?w, lastFrame := Some ?w,
             captures := [\<lparr>capture_id = 1700000000000, capture_timestamp = 1700000000000\<rparr>],
             sessionCaptures := 1,
             alerts := [\<lparr>alert_id = 1700000000000, alert_timestamp = 1700000000000,
                          motionLevel = Num 100, read = False\<rparr>],
             activityData := (replicate 24 0)[12 := 1],
             lastCaptureTime := 1700000000000\<rparr>"
    by (simp add: eval_data eval_cycle detectMotion_plain_def threshold_50 eval_loop)
  have m1: "motionPercentage (Num 50) (data (pixel 255 0 0)) (data ?w) = Num 100"
    by (simp add: motionPercentage_def eval_data threshold_50 eval_loop)
  have m2: "motionPercentage (Num 50) (data ?w) (data ?w) = Num 0"
    by (simp add: motionPercentage_def eval_data threshold_50 eval_loop)
  have code2: "map alert_timestamp (alerts
        (detectMotion page0 (clock_at 1700000005000) ?w
          (detectMotion page0 (clock_at 1700000000000) ?w ?st)))
       = [1700000005000, 1700000000000]"
    unfolding code by (simp add: eval_data eval_cycle threshold_50 eval_loop)
  have plain2: "map alert_timestamp (alerts
        (detectMotion_plain page0 (clock_at 1700000005000) ?w
          (detectMotion_plain page0 (clock_at 1700000000000) ?w ?st)))
       = [1700000000000]"
    unfolding plain
    by (simp add: eval_data eval_cycle detectMotion_plain_def threshold_50 eval_loop)
  have l1: "lastFrame (detectMotion page0 (clock_at 1700000000000) ?w ?st)
      = Some (pixel 255 0 0)"
    unfolding code by simp
  have l2: "lastFrame (detectMotion_plain page0 (clock_at 1700000000000) ?w ?st) = Some ?w"
    unfolding plain by simp
  from same l1 l2 m1 m2 code2 plain2 show ?thesis by blast
qed

text \<open>
  C6, as stated, fails at sensitivity \<open>0\<close>. The threshold \<open>(100 - 0) * 2.55\<close> is computed in
  doubles and is \<open>254.99999999999997\<close>, not \<open>255\<close>; in app.js a pixel that goes from black to
  white has the difference \<open>255\<close>, which exceeds it, so the pixel is counted, the percentage
  is \<open>100\<close> and an alert is added. In intro.js the difference is the sum of the channel
  differences, and a pixel that changes by \<open>(200, 200, 0)\<close> is counted at sensitivity \<open>0\<close>.
\<close>

theorem C6_counterexample:
  "pixel_threshold (Num 0) = Num (255 - 1 / 2 ^ 45)
   \<and> pixel_threshold (Num 0) \<noteq> Num 255
   \<and> motionPercentage (Num 0) (data (pixel 0 0 0)) (data (pixel 255 255 255)) = Num 100
   \<and> alerts (detectMotion page0 (clock_at 1700000000000) (pixel 255 255 255)
         (watching (Num 0) (pixel 0 0 0)))
       = [\<lparr>alert_id = 1700000000000, alert_timestamp = 1700000000000, motionLevel = Num 100,
            read = False\<rparr>]
   \<and> snd (compare_frames intro_totalDiff (pixel_threshold (Num 0)) (data (pixel 0 0 0)) 0
            (data (pixel 200 200 0)) 0) = 1"
  by (simp add: motionPercentage_def threshold_0 eval_data eval_cycle eval_loop)

text \<open>
  C6, amended. At sensitivity \<open>100\<close> the threshold is \<open>0\<close>, and in both variants a pixel is
  counted exactly when one of its red, green and blue bytes differs from the stored frame's;
  the loop of app.js counts exactly those pixels. At sensitivity \<open>0\<close>, in app.js a pixel whose
  channel differences sum to less than \<open>765\<close> is not counted, so for a pair of frames with no
  pixel that changes by \<open>255\<close> in all three channels the percentage is \<open>0\<close> and, for an area
  threshold that is not negative, no alert is added; in intro.js a pixel is counted exactly
  when its channel differences sum to \<open>255\<close> or more.
\<close>

theorem C6_sensitivity_ends:
  assumes "motionCanvas st \<noteq> None" and "video_present pg" and "video_ready pg"
    and "wf_image frame" and "lastFrame st = Some prev"
    and "length (data prev) = length (data frame)"
    and "j < width frame * height frame"
  shows "pixel_threshold (Num 100) = Num 0
    \<and> (pixel_changed (Num 100) (data frame) (data prev) j \<longleftrightarrow>
          data frame ! (4 * j) \<noteq> data prev ! (4 * j)
          \<or> data frame ! (4 * j + 1) \<noteq> data prev ! (4 * j + 1)
          \<or> data frame ! (4 * j + 2) \<noteq> data prev ! (4 * j + 2))
    \<and> (js_gt (intro_totalDiff (data frame) (data prev) (4 * j)) (pixel_threshold (Num 100))
          \<longleftrightarrow>
          data frame ! (4 * j) \<noteq> data prev ! (4 * j)
          \<or> data frame ! (4 * j + 1) \<noteq> data prev ! (4 * j + 1)
          \<or> data frame ! (4 * j + 2) \<noteq> data prev ! (4 * j + 2))
    \<and> snd (compare_frames totalDiff (pixel_threshold (Num 100)) (data prev) 0 (data frame) 0)
        = length (filter (\<lambda>i. 0 < channel_sum (data frame) (data prev) i)
                    [0..<width frame * height frame])
    \<and> (channel_sum (data frame) (data prev) j < 765 \<longrightarrow>
          \<not> pixel_changed (Num 0) (data frame) (data prev) j)
    \<and> (js_gt (intro_totalDiff (data frame) (data prev) (4 * j)) (pixel_threshold (Num 0))
          \<longleftrightarrow> 255 \<le> channel_sum (data frame) (data prev) j)
    \<and> ((\<forall>i<width frame * height frame. channel_sum (data frame) (data prev) i < 765)
         \<and> sensitivity st = Num 0 \<longrightarrow>
          motionPercentage (Num 0) (data prev) (data frame) = Num 0
          \<and> (\<forall>m. motionThreshold st = Num m \<and> 0 \<le> m \<longrightarrow>
                alerts (detectMotion pg clk frame st) = alerts st))"
proof -
  let ?cur = "data frame" and ?prev = "data prev"
  let ?n = "width frame * height frame"
  have len: "length ?cur = 4 * ?n" and n: "0 < ?n"
    and dims: "0 < width frame" "0 < height frame"
    using assms(4) by (simp_all add: wf_image_def)
  have i: "4 * j + 2 < length ?cur" using assms(7) len by simp
  have div: "length ?cur div 4 = ?n" using len by simp
  have c100: "snd (compare_frames totalDiff (pixel_threshold (Num 100)) ?prev 0 ?cur 0)
        = length (filter (\<lambda>i. 0 < channel_sum ?cur ?prev i) [0..<?n])"
  proof -
    have "pixel_changed (Num 100) ?cur ?prev = (\<lambda>i. 0 < channel_sum ?cur ?prev i)"
      by (rule ext) (rule pixel_changed_100)
    then show ?thesis
      unfolding compare_frames_changed_count [OF len assms(6)] changed_count_def div
      by (simp only:)
  qed
  have quiet: "motionPercentage (Num 0) ?prev ?cur = Num 0
          \<and> (\<forall>m. motionThreshold st = Num m \<and> 0 \<le> m \<longrightarrow>
                alerts (detectMotion pg clk frame st) = alerts st)"
    if below: "\<forall>i<?n. channel_sum ?cur ?prev i < 765" and s: "sensitivity st = Num 0"
  proof -
    have "filter (pixel_changed (Num 0) ?cur ?prev) [0..<?n] = []"
      using below by (simp add: filter_empty_conv pixel_changed_0)
    then have "snd (compare_frames totalDiff (pixel_threshold (Num 0)) ?prev 0 ?cur 0) = 0"
      unfolding compare_frames_changed_count [OF len assms(6)] changed_count_def div by simp
    then have m: "motionPercentage (Num 0) ?prev ?cur = Num 0"
      using n len by (simp add: motionPercentage_def percentage_zero)
    show ?thesis
      unfolding detectMotion_alerts(1) [OF assms(1-3) dims assms(5)] s m Let_def
      by simp
  qed
  show ?thesis
    using threshold_100 pixel_changed_100 [of ?cur ?prev j]
      intro_changed_100 [OF i assms(6)] channel_sum_pos_iff [of ?cur ?prev j] c100
      pixel_changed_0 [of ?cur ?prev j] intro_changed_0 [OF i assms(6)] quiet
    by blast
qed

theorem C6_witness:
  "motionCanvas (watching (Num 0) black4) \<noteq> None \<and> video_present page0 \<and> video_ready page0
   \<and> wf_image bright1 \<and> lastFrame (watching (Num 0) black4) = Some black4
   \<and> length (data black4) = length (data bright1)
   \<and> 0 < width bright1 * height bright1
   \<and> channel_sum (data bright1) (data black4) 0 = 764
   \<and> pixel_changed (Num 100) (data bright1) (data black4) 0
   \<and> \<not> pixel_changed (Num 0) (data bright1) (data black4) 0
   \<and> motionPercentage (Num 0) (data black4) (data bright1) = Num 0
   \<and> alerts (detectMotion page0 (clock_at 1700000000000) bright1 (watching (Num 0) black4)) = []"
proof -
  let ?st = "watching (Num 0) black4"
  have h: "motionCanvas ?st \<noteq> None" "video_present page0" "video_ready page0"
    "wf_image bright1" "lastFrame ?st = Some black4"
    "length (data black4) = length (data bright1)" "0 < width bright1 * height bright1"
    by (simp_all add: eval_data wf_image_def)
  have s: "sensitivity ?st = Num 0" "motionThreshold ?st = Num 2" "alerts ?st = []"
    by (simp_all add: eval_data)
  have c0: "channel_sum (data bright1) (data black4) 0 = 764"
    by (simp add: eval_spec eval_data)
  have differs: "data bright1 ! (4 * 0) \<noteq> data black4 ! (4 * 0)"
    by (simp add: eval_data)
  have below: "\<forall>i<width bright1 * height bright1. channel_sum (data bright1) (data black4) i < 765"
  proof (intro allI impI)
    fix i assume "i < width bright1 * height bright1"
    then have "i < 4" by (simp add: eval_data)
    then consider "i = 0" | "i = 1" | "i = 2" | "i = 3" by linarith
    then show "channel_sum (data bright1) (data black4) i < 765"
      by cases (simp_all add: eval_spec eval_data)
  qed
  note T = C6_sensitivity_ends [OF h, of "clock_at 1700000000000"]
  have a: "pixel_changed (Num 100) (data bright1) (data black4) 0"
    using T differs by blast
  have b: "\<not> pixel_changed (Num 0) (data bright1) (data black4) 0"
    using T c0 by simp
  have c: "motionPercentage (Num 0) (data black4) (data bright1) = Num 0"
    using T below s(1) by blast
  have d: "alerts (detectMotion page0 (clock_at 1700000000000) bright1 ?st) = alerts ?st"
    using T below s(1,2) by simp
  from h c0 a b c d s(3) show ?thesis by simp
qed

text \<open>
  C7. A detection cycle that finds no stored frame (after the constructor, after
  \<open>clearMotionArea\<close>) stores the frame as the baseline and does nothing else: the loop does
  not run, no percentage is compared with the threshold, the handler is not called, so no
  alert is added and the cooldown clock is untouched. The result is the camera with the canvas
  and \<open>lastFrame\<close> set to the frame, whatever the sensitivity and the thresholds are.
\<close>

theorem C7_first_frame_is_baseline_only:
  assumes "motionCanvas st \<noteq> None" and "video_present pg" and "video_ready pg"
    and "0 < width frame" and "0 < height frame"
    and "lastFrame st = None"
  shows "detectMotion pg clk frame st = st\<lparr>motionCanvas := Some frame, lastFrame := Some frame\<rparr>
    \<and> lastFrame (detectMotion pg clk frame st) = Some frame
    \<and> alerts (detectMotion pg clk frame st) = alerts st
    \<and> captures (detectMotion pg clk frame st) = captures st
    \<and> lastCaptureTime (detectMotion pg clk frame st) = lastCaptureTime st
    \<and> lastFrame (constructor canvas ready) = None
    \<and> lastFrame (clearMotionArea st') = None"
  using detectMotion_first [OF assms]
  by (simp add: constructor_def clearMotionArea_def)

theorem C7_witness:
  "motionCanvas camera0 \<noteq> None \<and> video_present page0 \<and> video_ready page0
   \<and> 0 < width (pixel 255 255 255) \<and> 0 < height (pixel 255 255 255)
   \<and> lastFrame camera0 = None
   \<and> lastFrame (detectMotion page0 (clock_at 1700000000000) (pixel 255 255 255) camera0)
        = Some (pixel 255 255 255)
   \<and> alerts (detectMotion page0 (clock_at 1700000000000) (pixel 255 255 255) camera0) = []"
proof -
  have h: "motionCanvas camera0 \<noteq> None" "video_present page0" "video_ready page0"
    "0 < width (pixel 255 255 255)" "0 < height (pixel 255 255 255)" "lastFrame camera0 = None"
    by (simp_all add: camera0_def constructor_def page0_def pixel_def)
  have none: "alerts camera0 = []" by (simp add: camera0_def constructor_def)
  from C7_first_frame_is_baseline_only [OF h] none show ?thesis using h by simp
qed

text \<open>
  C8. The claim that turning detection off clears the stored frame does not hold on every
  page. \<open>toggleMotionDetection\<close> flips the flag first and then returns when the button or
  the status element is missing, before it reaches \<open>this.lastFrame = null\<close>; detection is
  nevertheless off, and on again after the next call. With both elements the stored frame is
  cleared, it stays cleared when detection is turned on again, and the first tick after that
  adds no alert, whatever the frame. With one of them missing the call only flips the flag,
  so after off and on the stored frame is the one from before.
\<close>

theorem C8_toggle_clears_baseline_only_with_its_elements:
  "motionDetectionActive (toggleMotionDetection pg st) = (\<not> motionDetectionActive st)
   \<and> (toggleDetection_present pg \<and> detectionStatus_present pg \<and> motionDetectionActive st
        \<longrightarrow> lastFrame (toggleMotionDetection pg st) = None
          \<and> lastFrame (toggleMotionDetection pg (toggleMotionDetection pg st)) = None
          \<and> motionDetectionActive (toggleMotionDetection pg (toggleMotionDetection pg st))
          \<and> (\<forall>clk frame.
                alerts (motion_tick pg clk frame
                  (toggleMotionDetection pg (toggleMotionDetection pg st))) = alerts st))
   \<and> (\<not> (toggleDetection_present pg \<and> detectionStatus_present pg)
        \<longrightarrow> toggleMotionDetection pg st
            = st\<lparr>motionDetectionActive := \<not> motionDetectionActive st\<rparr>
          \<and> lastFrame (toggleMotionDetection pg (toggleMotionDetection pg st)) = lastFrame st)"
proof -
  have flag: "motionDetectionActive (toggleMotionDetection pg st) = (\<not> motionDetectionActive st)"
    for st
    by (simp add: toggleMotionDetection_def activateBlackScreen_def deactivateBlackScreen_def
          Let_def)
  have keep: "alerts (toggleMotionDetection pg st) = alerts st" for st
    by (simp add: toggleMotionDetection_def activateBlackScreen_def deactivateBlackScreen_def
          Let_def)
  have off: "lastFrame (toggleMotionDetection pg st) = None"
    if "toggleDetection_present pg" "detectionStatus_present pg" "motionDetectionActive st"
    for st
    using that by (simp add: toggleMotionDetection_def Let_def)
  have on: "lastFrame (toggleMotionDetection pg st) = lastFrame st"
    if "\<not> motionDetectionActive st" for st
    using that
    by (simp add: toggleMotionDetection_def activateBlackScreen_def Let_def)
  have with_elements: "lastFrame (toggleMotionDetection pg st) = None
          \<and> lastFrame (toggleMotionDetection pg (toggleMotionDetection pg st)) = None
          \<and> motionDetectionActive (toggleMotionDetection pg (toggleMotionDetection pg st))
          \<and> (\<forall>clk frame.
                alerts (motion_tick pg clk frame
                  (toggleMotionDetection pg (toggleMotionDetection pg st))) = alerts st)"
    if e: "toggleDetection_present pg" "detectionStatus_present pg" "motionDetectionActive st"
  proof -
    let ?off = "toggleMotionDetection pg st"
    let ?on = "toggleMotionDetection pg ?off"
    have 1: "lastFrame ?off = None" by (rule off [OF e])
    have "\<not> motionDetectionActive ?off" using e(3) by (simp add: flag)
    then have 2: "lastFrame ?on = None" using 1 by (simp add: on)
    have 3: "motionDetectionActive ?on" using e(3) by (simp add: flag)
    have 4: "alerts (motion_tick pg clk frame ?on) = alerts st" for clk frame
      by (simp add: motion_tick_def detectMotion_without_baseline(1) [OF 2] keep)
    from 1 2 3 4 show ?thesis by blast
  qed
  have without: "toggleMotionDetection pg st
            = st\<lparr>motionDetectionActive := \<not> motionDetectionActive st\<rparr>
          \<and> lastFrame (toggleMotionDetection pg (toggleMotionDetection pg st)) = lastFrame st"
    if "\<not> (toggleDetection_present pg \<and> detectionStatus_present pg)"
    using that by (auto simp: toggleMotionDetection_def Let_def)
  show ?thesis using flag [of st] with_elements without by blast
qed

theorem C8_witness:
  "\<not> (toggleDetection_present page1 \<and> detectionStatus_present page1)
   \<and> motionDetectionActive armed0
   \<and> lastFrame armed0 = Some (pixel 0 0 0)
   \<and> \<not> motionDetectionActive (toggleMotionDetection page1 armed0)
   \<and> motionDetectionActive (toggleMotionDetection page1 (toggleMotionDetection page1 armed0))
   \<and> lastFrame (toggleMotionDetection page1 (toggleMotionDetection page1 armed0))
       = Some (pixel 0 0 0)
   \<and> alerts (motion_tick page1 (clock_at 1700000000000) (pixel 255 255 255)
         (toggleMotionDetection page1 (toggleMotionDetection page1 armed0)))
       = [\<lparr>alert_id = 1700000000000, alert_timestamp = 1700000000000, motionLevel = Num 100,
            read = False\<rparr>]
   \<and> alerts (motion_tick page0 (clock_at 1700000000000) (pixel 255 255 255)
         (toggleMotionDetection page0 (toggleMotionDetection page0 armed0))) = []"
proof -
  have p1: "\<not> (toggleDetection_present page1 \<and> detectionStatus_present page1)"
    by (simp add: eval_data)
  have p0: "toggleDetection_present page0 \<and> detectionStatus_present page0
      \<and> motionDetectionActive armed0"
    by (simp add: eval_data)
  have s: "motionDetectionActive armed0" "lastFrame armed0 = Some (pixel 0 0 0)"
    "alerts armed0 = []"
    by (simp_all add: eval_data)
  note T1 = C8_toggle_clears_baseline_only_with_its_elements [of page1 armed0]
  note T0 = C8_toggle_clears_baseline_only_with_its_elements [of page0 armed0]
  have twice: "toggleMotionDetection page1 (toggleMotionDetection page1 armed0) = armed0"
    by (simp add: toggleMotionDetection_def Let_def eval_data)
  have "lastFrame (toggleMotionDetection page1 (toggleMotionDetection page1 armed0))
      = lastFrame armed0"
    using T1 p1 by blast
  then have kept: "lastFrame (toggleMotionDetection page1 (toggleMotionDetection page1 armed0))
      = Some (pixel 0 0 0)"
    by (simp only: s(2))
  have "motionDetectionActive (toggleMotionDetection page1 armed0)
      = (\<not> motionDetectionActive armed0)"
    using T1 by blast
  then have off: "\<not> motionDetectionActive (toggleMotionDetection page1 armed0)"
    using s(1) by simp
  have on: "motionDetectionActive (toggleMotionDetection page1 (toggleMotionDetection page1 armed0))"
    unfolding twice by (rule s(1))
  have fires: "alerts (motion_tick page1 (clock_at 1700000000000) (pixel 255 255 255)
         (toggleMotionDetection page1 (toggleMotionDetection page1 armed0)))
       = [\<lparr>alert_id = 1700000000000, alert_timestamp = 1700000000000, motionLevel = Num 100,
            read = False\<rparr>]"
    unfolding twice by (simp add: eval_data eval_cycle threshold_30 eval_loop)
  have "alerts (motion_tick page0 (clock_at 1700000000000) (pixel 255 255 255)
         (toggleMotionDetection page0 (toggleMotionDetection page0 armed0))) = alerts armed0"
    using T0 p0 by blast
  then have quiet: "alerts (motion_tick page0 (clock_at 1700000000000) (pixel 255 255 255)
         (toggleMotionDetection page0 (toggleMotionDetection page0 armed0))) = []"
    by (simp only: s(3))
  from p1 s(1,2) off on kept fires quiet show ?thesis by blast
qed

text \<open>
  C9, as stated, fails: the listener of the sensitivity slider stores the value it is given,
  and nothing between it and the loop clamps. After the value 150 the sensitivity is 150,
  above 100; the threshold of the next cycle is negative, and a frame equal to the stored
  frame is reported as 100 percent motion and adds an alert.
\<close>

theorem C9_counterexample:
  "sensitivity (sensitivitySlider_input (Num 150) camera0) = Num 150
   \<and> js_gt (sensitivity (sensitivitySlider_input (Num 150) camera0)) (Num 100)
   \<and> pixel_threshold (sensitivity (sensitivitySlider_input (Num 150) camera0))
       = Num (- (255 / 2 - 1 / 2 ^ 46))
   \<and> motionPercentage (sensitivity (sensitivitySlider_input (Num 150) camera0))
         (rgb 0 0 0) (rgb 0 0 0) = Num 100
   \<and> alerts (detectMotion page0 (clock_at 1700000000000) (pixel 0 0 0)
        (sensitivitySlider_input (Num 150) armed0))
      = [\<lparr>alert_id = 1700000000000, alert_timestamp = 1700000000000, motionLevel = Num 100,
           read = False\<rparr>]"
  by (simp add: sensitivitySlider_input_def motionPercentage_def threshold_150 eval_data
        eval_loop eval_cycle)

text \<open>
  C9, amended. Configuring stores the sensitivity exactly as supplied, without clamping: for
  every value, inside 0 to 100 or not, the next detection cycle computes its threshold
  \<open>(100 - value) * 2.55\<close> and its decision from that value; a value above \<open>100\<close> makes the
  threshold negative, and every pixel counts as changed. No validation is applied to the
  area threshold or the cooldown either. The settings dialog stores \<open>parseFloat\<close> of the
  threshold field and \<open>parseInt\<close> of the cooldown field times 1000, with \<open>2\<close> and \<open>5\<close> read
  for a field that is empty or missing, and the delay slider stores its value times 1000:
  whatever number results, and the next detection cycle decides with the numbers as stored.
\<close>

theorem C9_sensitivity_stored_as_supplied:
  assumes "motionCanvas st \<noteq> None" and "video_present pg" and "video_ready pg"
    and "0 < width frame" and "0 < height frame" and "lastFrame st = Some prev"
  shows "sensitivity (sensitivitySlider_input v st) = v
    \<and> pixel_threshold (sensitivity (sensitivitySlider_input v st))
        = js_mul (js_sub (Num 100) v) (Num (fl (255 / 100)))
    \<and> lastFrame (detectMotion pg clk frame (sensitivitySlider_input v st))
        = Some (frame\<lparr>data := fst (compare_frames totalDiff (pixel_threshold v) (data prev) 0
                                     (data frame) 0)\<rparr>)
    \<and> alerts (detectMotion pg clk frame (sensitivitySlider_input v st))
        = (let pct = motionPercentage v (data prev) (data frame)
           in if js_gt pct (motionThreshold st)
                 \<and> \<not> js_lt (Num (of_int (now clk - lastCaptureTime st))) (cooldownPeriod st)
              then \<lparr>alert_id = now clk, alert_timestamp = now clk, motionLevel = pct,
                      read = False\<rparr> # alerts st
              else alerts st)
    \<and> (js_gt v (Num 100) \<longrightarrow>
          js_lt (pixel_threshold v) (Num 0)
          \<and> (wf_image frame \<and> length (data prev) = length (data frame) \<longrightarrow>
                snd (compare_frames totalDiff (pixel_threshold v) (data prev) 0 (data frame) 0)
                  = width frame * height frame))
    \<and> cooldownPeriod (captureDelay_input d st) = js_mul d (Num 1000)
    \<and> alerts (detectMotion pg clk frame (captureDelay_input d st))
        = (let pct = motionPercentage (sensitivity st) (data prev) (data frame)
           in if js_gt pct (motionThreshold st)
                 \<and> \<not> js_lt (Num (of_int (now clk - lastCaptureTime st))) (js_mul d (Num 1000))
              then \<lparr>alert_id = now clk, alert_timestamp = now clk, motionLevel = pct,
                      read = False\<rparr> # alerts st
              else alerts st)
    \<and> (\<forall>t. parseFloat (or_default (motionThreshold_value form) ''2'') = Some t \<longrightarrow>
          (\<exists>st'. saveSettings form pg st = Some st'
             \<and> motionThreshold st' = t
             \<and> cooldownPeriod st'
                 = js_mul (parseInt (or_default (cooldownPeriod_value form) ''5'')) (Num 1000)
             \<and> sensitivity st' = sensitivity st
             \<and> alerts (detectMotion pg clk frame st')
                 = (let pct = motionPercentage (sensitivity st) (data prev) (data frame)
                    in if js_gt pct t
                          \<and> \<not> js_lt (Num (of_int (now clk - lastCaptureTime st)))
                                (js_mul (parseInt (or_default (cooldownPeriod_value form) ''5''))
                                   (Num 1000))
                       then \<lparr>alert_id = now clk, alert_timestamp = now clk, motionLevel = pct,
                               read = False\<rparr> # alerts st
                       else alerts st)))
    \<and> or_default None dflt = dflt \<and> or_default (Some []) dflt = dflt
    \<and> parseFloat ''2'' = Some (Num 2) \<and> js_mul (parseInt ''5'') (Num 1000) = Num 5000"
proof -
  let ?st = "sensitivitySlider_input v st"
  have g: "motionCanvas ?st \<noteq> None" "lastFrame ?st = Some prev"
    using assms by (simp_all add: sensitivitySlider_input_def)
  have s: "sensitivity ?st = v" "motionThreshold ?st = motionThreshold st"
    "lastCaptureTime ?st = lastCaptureTime st" "cooldownPeriod ?st = cooldownPeriod st"
    "alerts ?st = alerts st"
    by (simp_all add: sensitivitySlider_input_def)
  note d = detectMotion_alerts [OF g(1) assms(2,3,4,5) g(2), of clk]
  have slider: "sensitivity ?st = v
    \<and> pixel_threshold (sensitivity ?st)
        = js_mul (js_sub (Num 100) v) (Num (fl (255 / 100)))
    \<and> lastFrame (detectMotion pg clk frame ?st)
        = Some (frame\<lparr>data := fst (compare_frames totalDiff (pixel_threshold v) (data prev) 0
                                     (data frame) 0)\<rparr>)
    \<and> alerts (detectMotion pg clk frame ?st)
        = (let pct = motionPercentage v (data prev) (data frame)
           in if js_gt pct (motionThreshold st)
                 \<and> \<not> js_lt (Num (of_int (now clk - lastCaptureTime st))) (cooldownPeriod st)
              then \<lparr>alert_id = now clk, alert_timestamp = now clk, motionLevel = pct,
                      read = False\<rparr> # alerts st
              else alerts st)"
    unfolding d s by (simp add: pixel_threshold_def lit_2_55_def)
  have above: "js_lt (pixel_threshold v) (Num 0)
      \<and> (wf_image frame \<and> length (data prev) = length (data frame) \<longrightarrow>
            snd (compare_frames totalDiff (pixel_threshold v) (data prev) 0 (data frame) 0)
              = width frame * height frame)"
    if "js_gt v (Num 100)"
  proof -
    from that obtain x where x: "v = Num x" "100 < x" by (cases v) simp_all
    obtain t where t: "pixel_threshold (Num x) = Num t" "t < 0"
      using pixel_threshold_negative [OF x(2)] by blast
    have neg: "js_lt (pixel_threshold v) (Num 0)" unfolding x(1) t(1) using t(2) by simp
    have all: "snd (compare_frames totalDiff (pixel_threshold v) (data prev) 0 (data frame) 0)
              = width frame * height frame"
      if w: "wf_image frame" and eq: "length (data prev) = length (data frame)"
    proof -
      have len: "length (data frame) = 4 * (width frame * height frame)"
        using w by (simp add: wf_image_def)
      show ?thesis
        unfolding x(1) compare_frames_changed_count [OF len eq]
          changed_count_above_100 [OF x(2)] len
        by simp
    qed
    from neg all show ?thesis by blast
  qed
  let ?sd = "captureDelay_input d st"
  have gd: "motionCanvas ?sd \<noteq> None" "lastFrame ?sd = Some prev"
    using assms by (simp_all add: captureDelay_input_def)
  have delay: "cooldownPeriod ?sd = js_mul d (Num 1000)
    \<and> alerts (detectMotion pg clk frame ?sd)
        = (let pct = motionPercentage (sensitivity st) (data prev) (data frame)
           in if js_gt pct (motionThreshold st)
                 \<and> \<not> js_lt (Num (of_int (now clk - lastCaptureTime st))) (js_mul d (Num 1000))
              then \<lparr>alert_id = now clk, alert_timestamp = now clk, motionLevel = pct,
                      read = False\<rparr> # alerts st
              else alerts st)"
    unfolding detectMotion_alerts(1) [OF gd(1) assms(2,3,4,5) gd(2), of clk]
    by (simp add: captureDelay_input_def Let_def)
  have dialog: "\<exists>st'. saveSettings form pg st = Some st'
             \<and> motionThreshold st' = t
             \<and> cooldownPeriod st'
                 = js_mul (parseInt (or_default (cooldownPeriod_value form) ''5'')) (Num 1000)
             \<and> sensitivity st' = sensitivity st
             \<and> alerts (detectMotion pg clk frame st')
                 = (let pct = motionPercentage (sensitivity st) (data prev) (data frame)
                    in if js_gt pct t
                          \<and> \<not> js_lt (Num (of_int (now clk - lastCaptureTime st)))
                                (js_mul (parseInt (or_default (cooldownPeriod_value form) ''5''))
                                   (Num 1000))
                       then \<lparr>alert_id = now clk, alert_timestamp = now clk, motionLevel = pct,
                               read = False\<rparr> # alerts st
                       else alerts st)"
    if p: "parseFloat (or_default (motionThreshold_value form) ''2'') = Some t" for t
  proof -
    let ?c = "js_mul (parseInt (or_default (cooldownPeriod_value form) ''5'')) (Num 1000)"
    let ?st' = "st\<lparr>motionThreshold := t, cooldownPeriod := ?c,
                   maxStorageImages := parseInt (or_default (maxImages_value form) ''100''),
                   blackScreenEnabled := blackScreenMode_checked pg\<rparr>"
    have sv: "saveSettings form pg st = Some ?st'"
      by (simp add: saveSettings_def p)
    have gs: "motionCanvas ?st' \<noteq> None" "lastFrame ?st' = Some prev"
      using assms by simp_all
    have "alerts (detectMotion pg clk frame ?st')
        = (let pct = motionPercentage (sensitivity st) (data prev) (data frame)
           in if js_gt pct t
                 \<and> \<not> js_lt (Num (of_int (now clk - lastCaptureTime st))) ?c
              then \<lparr>alert_id = now clk, alert_timestamp = now clk, motionLevel = pct,
                      read = False\<rparr> # alerts st
              else alerts st)"
      unfolding detectMotion_alerts(1) [OF gs(1) assms(2,3,4,5) gs(2), of clk]
      by (simp add: Let_def)
    with sv show ?thesis by simp
  qed
  have dflt: "or_default None dflt = dflt" "or_default (Some []) dflt = dflt"
    by (simp_all add: or_default_def)
  have two: "parseFloat ''2'' = Some (Num 2)" by (rule parseFloat_examples)
  have ms: "js_mul (parseInt ''5'') (Num 1000) = Num 5000"
    unfolding parseInt_examples by (simp add: fl_numeral)
  show ?thesis using slider above delay dialog dflt two ms by blast
qed

theorem C9_witness:
  "motionCanvas (watching (Num 30) (pixel 7 7 7)) \<noteq> None
   \<and> video_present page0 \<and> video_ready page0
   \<and> 0 < width (pixel 7 7 7) \<and> 0 < height (pixel 7 7 7)
   \<and> lastFrame (watching (Num 30) (pixel 7 7 7)) = Some (pixel 7 7 7)
   \<and> sensitivity (sensitivitySlider_input (Num 150) (watching (Num 30) (pixel 7 7 7))) = Num 150
   \<and> alerts (detectMotion page0 (clock_at 1700000000000) (pixel 7 7 7)
        (sensitivitySlider_input (Num 150) (watching (Num 30) (pixel 7 7 7))))
      = [\<lparr>alert_id = 1700000000000, alert_timestamp = 1700000000000, motionLevel = Num 100,
           read = False\<rparr>]
   \<and> js_gt (Num 150) (Num 100) \<and> js_lt (pixel_threshold (Num 150)) (Num 0)
   \<and> parseFloat (or_default (Some ''-1'') ''2'') = Some (Num (- 1))
   \<and> js_mul (parseInt (or_default (Some ''abc'') ''5'')) (Num 1000) = NaN
   \<and> (\<exists>st'. saveSettings \<lparr>motionThreshold_value = Some ''-1'',
                  cooldownPeriod_value = Some ''abc'', maxImages_value = None\<rparr>
               page0 (watching (Num 30) (pixel 7 7 7)) = Some st'
          \<and> motionThreshold st' = Num (- 1) \<and> cooldownPeriod st' = NaN
          \<and> alerts (detectMotion page0 (clock_at 3000) (pixel 7 7 7) st')
              = [\<lparr>alert_id = 3000, alert_timestamp = 3000, motionLevel = Num 0,
                   read = False\<rparr>])
   \<and> parseFloat (or_default (Some []) ''2'') = Some (Num 2)
   \<and> (\<exists>st'. saveSettings \<lparr>motionThreshold_value = Some [],
                  cooldownPeriod_value = Some ''2.9'', maxImages_value = None\<rparr>
               page0 (watching (Num 30) (pixel 7 7 7)) = Some st'
          \<and> motionThreshold st' = Num 2 \<and> cooldownPeriod st' = Num 2000)"
proof -
  let ?st = "watching (Num 30) (pixel 7 7 7)"
  let ?form = "\<lparr>motionThreshold_value = Some ''-1'', cooldownPeriod_value = Some ''abc'',
                maxImages_value = None\<rparr>"
  have h: "motionCanvas ?st \<noteq> None" "video_present page0" "video_ready page0"
    "0 < width (pixel 7 7 7)" "0 < height (pixel 7 7 7)" "lastFrame ?st = Some (pixel 7 7 7)"
    by (simp_all add: eval_data)
  have m: "motionPercentage (Num 150) (data (pixel 7 7 7)) (data (pixel 7 7 7)) = Num 100"
    by (simp add: motionPercentage_def threshold_150 eval_data eval_loop)
  have m30: "motionPercentage (Num 30) (data (pixel 7 7 7)) (data (pixel 7 7 7)) = Num 0"
    by (simp add: motionPercentage_def threshold_30 eval_data eval_loop)
  have s: "motionThreshold ?st = Num 2" "lastCaptureTime ?st = 0"
    "cooldownPeriod ?st = Num 5000" "alerts ?st = []" "sensitivity ?st = Num 30"
    "now (clock_at 1700000000000) = 1700000000000" "now (clock_at 3000) = 3000"
    by (simp_all add: eval_data)
  have pf: "parseFloat ''-1'' = Some (Num (- 1))" by (rule parseFloat_examples)
  have pi: "parseInt ''abc'' = NaN" by (rule parseInt_examples)
  have f: "or_default (motionThreshold_value ?form) ''2'' = ''-1''"
    "or_default (cooldownPeriod_value ?form) ''5'' = ''abc''"
    "or_default (Some ''-1'') ''2'' = ''-1''" "or_default (Some ''abc'') ''5'' = ''abc''"
    by (simp_all add: or_default_def)
  have pt: "parseFloat (or_default (motionThreshold_value ?form) ''2'') = Some (Num (- 1))"
    unfolding f pf by (rule refl)
  note T = C9_sensitivity_stored_as_supplied
    [OF h, of "Num 150" "clock_at 1700000000000" NaN ?form]
  note U = C9_sensitivity_stored_as_supplied
    [OF h, of "Num 150" "clock_at 3000" NaN ?form]
  have v: "sensitivity (sensitivitySlider_input (Num 150) ?st) = Num 150"
    using T by (rule conjunct1)
  have "alerts (detectMotion page0 (clock_at 1700000000000) (pixel 7 7 7)
        (sensitivitySlider_input (Num 150) ?st))
      = (let pct = motionPercentage (Num 150) (data (pixel 7 7 7)) (data (pixel 7 7 7))
         in if js_gt pct (motionThreshold ?st)
               \<and> \<not> js_lt (Num (of_int (now (clock_at 1700000000000) - lastCaptureTime ?st)))
                     (cooldownPeriod ?st)
            then \<lparr>alert_id = now (clock_at 1700000000000),
                    alert_timestamp = now (clock_at 1700000000000), motionLevel = pct,
                    read = False\<rparr> # alerts ?st
            else alerts ?st)"
    using T by blast
  then have a: "alerts (detectMotion page0 (clock_at 1700000000000) (pixel 7 7 7)
        (sensitivitySlider_input (Num 150) ?st))
      = [\<lparr>alert_id = 1700000000000, alert_timestamp = 1700000000000, motionLevel = Num 100,
           read = False\<rparr>]"
    unfolding m s Let_def by simp
  have hi: "js_gt (Num 150) (Num 100)" by simp
  have "js_gt (Num 150) (Num 100) \<longrightarrow> js_lt (pixel_threshold (Num 150)) (Num 0)"
    using T by blast
  with hi have neg: "js_lt (pixel_threshold (Num 150)) (Num 0)" by blast
  have "\<forall>t. parseFloat (or_default (motionThreshold_value ?form) ''2'') = Some t \<longrightarrow>
          (\<exists>st'. saveSettings ?form page0 ?st = Some st'
             \<and> motionThreshold st' = t
             \<and> cooldownPeriod st'
                 = js_mul (parseInt (or_default (cooldownPeriod_value ?form) ''5'')) (Num 1000)
             \<and> sensitivity st' = sensitivity ?st
             \<and> alerts (detectMotion page0 (clock_at 3000) (pixel 7 7 7) st')
                 = (let pct = motionPercentage (sensitivity ?st) (data (pixel 7 7 7))
                                (data (pixel 7 7 7))
                    in if js_gt pct t
                          \<and> \<not> js_lt (Num (of_int (now (clock_at 3000) - lastCaptureTime ?st)))
                                (js_mul (parseInt (or_default (cooldownPeriod_value ?form) ''5''))
                                   (Num 1000))
                       then \<lparr>alert_id = now (clock_at 3000),
                               alert_timestamp = now (clock_at 3000), motionLevel = pct,
                               read = False\<rparr> # alerts ?st
                       else alerts ?st))"
    using U by blast
  with pt obtain st' where st': "saveSettings ?form page0 ?st = Some st'"
    "motionThreshold st' = Num (- 1)"
    "cooldownPeriod st'
       = js_mul (parseInt (or_default (cooldownPeriod_value ?form) ''5'')) (Num 1000)"
    "alerts (detectMotion page0 (clock_at 3000) (pixel 7 7 7) st')
       = (let pct = motionPercentage (sensitivity ?st) (data (pixel 7 7 7))
                      (data (pixel 7 7 7))
          in if js_gt pct (Num (- 1))
                \<and> \<not> js_lt (Num (of_int (now (clock_at 3000) - lastCaptureTime ?st)))
                      (js_mul (parseInt (or_default (cooldownPeriod_value ?form) ''5''))
                         (Num 1000))
             then \<lparr>alert_id = now (clock_at 3000),
                     alert_timestamp = now (clock_at 3000), motionLevel = pct,
                     read = False\<rparr> # alerts ?st
             else alerts ?st)"
    by blast
  have c: "js_mul (parseInt (or_default (cooldownPeriod_value ?form) ''5'')) (Num 1000) = NaN"
    unfolding f pi by simp
  have c': "js_mul (parseInt (or_default (Some ''abc'') ''5'')) (Num 1000) = NaN"
    unfolding f pi by simp
  have pt': "parseFloat (or_default (Some ''-1'') ''2'') = Some (Num (- 1))"
    unfolding f pf by (rule refl)
  have cd: "cooldownPeriod st' = NaN" unfolding st'(3) c by (rule refl)
  have al: "alerts (detectMotion page0 (clock_at 3000) (pixel 7 7 7) st')
      = [\<lparr>alert_id = 3000, alert_timestamp = 3000, motionLevel = Num 0, read = False\<rparr>]"
    unfolding st'(4) c s m30 Let_def by simp
  let ?form2 = "\<lparr>motionThreshold_value = Some [], cooldownPeriod_value = Some ''2.9'',
                 maxImages_value = None\<rparr>"
  have f2: "or_default (motionThreshold_value ?form2) ''2'' = ''2''"
    "or_default (cooldownPeriod_value ?form2) ''5'' = ''2.9''"
    "or_default (Some []) ''2'' = ''2''"
    by (simp_all add: or_default_def)
  have pt2: "parseFloat (or_default (motionThreshold_value ?form2) ''2'') = Some (Num 2)"
    unfolding f2 by (rule parseFloat_examples)
  have pt2': "parseFloat (or_default (Some []) ''2'') = Some (Num 2)"
    unfolding f2 by (rule parseFloat_examples)
  have c2: "js_mul (parseInt (or_default (cooldownPeriod_value ?form2) ''5'')) (Num 1000)
      = Num 2000"
    unfolding f2 parseInt_examples by (simp add: fl_numeral)
  note V = C9_sensitivity_stored_as_supplied
    [OF h, of "Num 150" "clock_at 3000" NaN ?form2]
  have "\<forall>t. parseFloat (or_default (motionThreshold_value ?form2) ''2'') = Some t \<longrightarrow>
          (\<exists>st'. saveSettings ?form2 page0 ?st = Some st'
             \<and> motionThreshold st' = t
             \<and> cooldownPeriod st'
                 = js_mul (parseInt (or_default (cooldownPeriod_value ?form2) ''5''))
                     (Num 1000))"
    using V by blast
  with pt2 have "\<exists>st'. saveSettings ?form2 page0 ?st = Some st'
             \<and> motionThreshold st' = Num 2
             \<and> cooldownPeriod st'
                 = js_mul (parseInt (or_default (cooldownPeriod_value ?form2) ''5''))
                     (Num 1000)"
    by blast
  then have second: "\<exists>st'. saveSettings ?form2 page0 ?st = Some st'
             \<and> motionThreshold st' = Num 2 \<and> cooldownPeriod st' = Num 2000"
    unfolding c2 .
  from h v a hi neg pt' c' st'(1,2) cd al pt2' second show ?thesis by blast
qed

text \<open>
  C10. When the cooldown test of \<open>onMotionDetected\<close> suppresses a detection
  (\<open>now - lastCaptureTime < cooldownPeriod\<close>), the handler returns with the camera unchanged:
  \<open>lastCaptureTime\<close> is not updated, no alert is added and no capture is taken. So the
  window is measured from the last emitted event: a later call behaves as if the suppressed
  one had not happened, and it emits as soon as \<open>cooldownPeriod\<close> has passed since
  \<open>lastCaptureTime\<close>. The detection cycle around a suppressed call changes only the canvas
  and the stored frame.
\<close>

theorem C10_suppressed_detection_changes_nothing:
  assumes "js_lt (Num (of_int (now clk - lastCaptureTime st))) (cooldownPeriod st)"
  shows "onMotionDetected pg clk level st = st
    \<and> lastCaptureTime (onMotionDetected pg clk level st) = lastCaptureTime st
    \<and> alerts (onMotionDetected pg clk level st) = alerts st
    \<and> captures (onMotionDetected pg clk level st) = captures st
    \<and> sessionCaptures (onMotionDetected pg clk level st) = sessionCaptures st
    \<and> (\<forall>clk' level'.
          onMotionDetected pg clk' level' (onMotionDetected pg clk level st)
            = onMotionDetected pg clk' level' st)
    \<and> (\<forall>clk' level'.
          \<not> js_lt (Num (of_int (now clk' - lastCaptureTime st))) (cooldownPeriod st) \<longrightarrow>
          lastCaptureTime (onMotionDetected pg clk' level' (onMotionDetected pg clk level st))
            = now clk'
          \<and> alerts (onMotionDetected pg clk' level' (onMotionDetected pg clk level st))
            = \<lparr>alert_id = now clk', alert_timestamp = now clk', motionLevel = level',
                read = False\<rparr> # alerts st)
    \<and> (\<forall>frame prev.
          motionCanvas st \<noteq> None \<and> video_present pg \<and> video_ready pg
          \<and> 0 < width frame \<and> 0 < height frame \<and> lastFrame st = Some prev
          \<longrightarrow> lastCaptureTime (detectMotion pg clk frame st) = lastCaptureTime st
            \<and> alerts (detectMotion pg clk frame st) = alerts st
            \<and> captures (detectMotion pg clk frame st) = captures st)"
proof -
  have same: "onMotionDetected pg clk level st = st" for level
    by (rule onMotionDetected_suppressed [OF assms])
  have later: "lastCaptureTime (onMotionDetected pg clk' level' st) = now clk'
      \<and> alerts (onMotionDetected pg clk' level' st)
          = \<lparr>alert_id = now clk', alert_timestamp = now clk', motionLevel = level',
              read = False\<rparr> # alerts st"
    if "\<not> js_lt (Num (of_int (now clk' - lastCaptureTime st))) (cooldownPeriod st)"
    for clk' level'
    using that by (simp add: onMotionDetected_fires)
  have cycle: "lastCaptureTime (detectMotion pg clk frame st) = lastCaptureTime st
      \<and> alerts (detectMotion pg clk frame st) = alerts st
      \<and> captures (detectMotion pg clk frame st) = captures st"
    if g: "motionCanvas st \<noteq> None" "video_present pg" "video_ready pg"
      "0 < width frame" "0 < height frame" "lastFrame st = Some prev" for frame prev
  proof -
    let ?st' = "st\<lparr>motionCanvas := Some (frame\<lparr>data :=
        fst (compare_frames totalDiff (pixel_threshold (sensitivity st)) (data prev) 0
               (data frame) 0)\<rparr>)\<rparr>"
    have "js_lt (Num (of_int (now clk - lastCaptureTime ?st'))) (cooldownPeriod ?st')"
      using assms by simp
    then have "onMotionDetected pg clk level' ?st' = ?st'" for level'
      by (rule onMotionDetected_suppressed)
    then show ?thesis unfolding detectMotion_next [OF g] Let_def by simp
  qed
  show ?thesis using same later cycle by simp
qed

theorem C10_witness:
  "js_lt (Num (of_int (now (clock_at 1700000003000)
                        - lastCaptureTime (camera0\<lparr>lastCaptureTime := 1700000000000\<rparr>))))
     (cooldownPeriod (camera0\<lparr>lastCaptureTime := 1700000000000\<rparr>))
   \<and> onMotionDetected page0 (clock_at 1700000003000) (Num 100)
        (camera0\<lparr>lastCaptureTime := 1700000000000\<rparr>)
      = camera0\<lparr>lastCaptureTime := 1700000000000\<rparr>
   \<and> alerts (onMotionDetected page0 (clock_at 1700000005000) (Num 100)
        (onMotionDetected page0 (clock_at 1700000003000) (Num 100)
          (camera0\<lparr>lastCaptureTime := 1700000000000\<rparr>)))
      = [\<lparr>alert_id = 1700000005000, alert_timestamp = 1700000005000, motionLevel = Num 100,
           read = False\<rparr>]"
proof -
  let ?st = "camera0\<lparr>lastCaptureTime := 1700000000000\<rparr>"
  have h: "js_lt (Num (of_int (now (clock_at 1700000003000) - lastCaptureTime ?st)))
             (cooldownPeriod ?st)"
    by (simp add: clock_at_def camera0_def constructor_def)
  have later: "\<not> js_lt (Num (of_int (now (clock_at 1700000005000) - lastCaptureTime ?st)))
                   (cooldownPeriod ?st)"
    by (simp add: clock_at_def camera0_def constructor_def)
  have none: "alerts ?st = []" by (simp add: camera0_def constructor_def)
  have now: "now (clock_at 1700000005000) = 1700000005000" by (simp add: clock_at_def)
  note T = C10_suppressed_detection_changes_nothing [OF h, of page0 "Num 100"]
  have same: "onMotionDetected page0 (clock_at 1700000003000) (Num 100) ?st = ?st"
    using T by (rule conjunct1)
  have "\<forall>clk' level'.
          \<not> js_lt (Num (of_int (now clk' - lastCaptureTime ?st))) (cooldownPeriod ?st) \<longrightarrow>
          lastCaptureTime (onMotionDetected page0 clk' level'
              (onMotionDetected page0 (clock_at 1700000003000) (Num 100) ?st)) = now clk'
          \<and> alerts (onMotionDetected page0 clk' level'
              (onMotionDetected page0 (clock_at 1700000003000) (Num 100) ?st))
            = \<lparr>alert_id = now clk', alert_timestamp = now clk', motionLevel = level',
                read = False\<rparr> # alerts ?st"
    using T by blast
  with later have "alerts (onMotionDetected page0 (clock_at 1700000005000) (Num 100)
              (onMotionDetected page0 (clock_at 1700000003000) (Num 100) ?st))
            = \<lparr>alert_id = now (clock_at 1700000005000),
                alert_timestamp = now (clock_at 1700000005000), motionLevel = Num 100,
                read = False\<rparr> # alerts ?st"
    by blast
  then have "alerts (onMotionDetected page0 (clock_at 1700000005000) (Num 100)
              (onMotionDetected page0 (clock_at 1700000003000) (Num 100) ?st))
            = [\<lparr>alert_id = 1700000005000, alert_timestamp = 1700000005000,
                 motionLevel = Num 100, read = False\<rparr>]"
    by (simp only: none now)
  with h same show ?thesis by blast
qed

end
